theory Spec2Isabelle
  imports Main "HOL-Library.Word"
begin

section \<open>The registration store of authentication.js\<close>

text \<open>
  The module keeps five global collections and a timer handle. They are modelled as one
  record that every operation takes and returns. The JavaScript objects used as
  dictionaries are maps from property keys to values; the queue is a list whose head is
  element 0. Times are the integer milliseconds of \<^verbatim>\<open>new Date().getTime()\<close>,
  passed to each operation as \<open>curtime\<close>.

  Property keys are the strings the program stores: registration codes and state tokens
  are hex strings, device keys have the form \<open>product:dsn\<close>. None of them is the
  name of a property inherited from \<^verbatim>\<open>Object.prototype\<close>, so the operator
  \<^verbatim>\<open>in\<close> and a truthiness test of an object-valued entry both amount to
  membership in the domain of the map.
\<close>

subsection \<open>Constants\<close>

definition MAX_REG_SECONDS :: int where "MAX_REG_SECONDS = 900"
definition MIN_POLL_RATE :: int where "MIN_POLL_RATE = 1000"
definition MAX_PENDING_REG :: int where "MAX_PENDING_REG = 50000"
definition PRODUCT_MAX_LENGTH :: nat where "PRODUCT_MAX_LENGTH = 384"
definition PRODUCT_MIN_LENGTH :: nat where "PRODUCT_MIN_LENGTH = 1"
definition DSN_MIN_LENGTH :: nat where "DSN_MIN_LENGTH = 1"
definition STATE_NUM_BYTES :: nat where "STATE_NUM_BYTES = 32"
definition REG_NUM_BYTES :: nat where "REG_NUM_BYTES = 12"

subsection \<open>Values\<close>

text \<open>
  A JavaScript number as far as the module computes with it: an integer, or \<open>NaN\<close>,
  which is what arithmetic on \<^verbatim>\<open>undefined\<close> and the conversion of a plain
  object give. Every comparison with \<open>NaN\<close> is false.
\<close>

datatype number = NaN | Number int

fun js_minus :: "number \<Rightarrow> number \<Rightarrow> number" where
  "js_minus (Number a) (Number b) = Number (a - b)"
| "js_minus _ _ = NaN"

fun js_less :: "number \<Rightarrow> number \<Rightarrow> bool" where
  "js_less (Number a) (Number b) = (a < b)"
| "js_less _ _ = False"

fun js_greater_eq :: "number \<Rightarrow> number \<Rightarrow> bool" where
  "js_greater_eq (Number a) (Number b) = (a \<ge> b)"
| "js_greater_eq _ _ = False"

text \<open>\<^verbatim>\<open>ToNumber\<close> of an optional numeric property: \<^verbatim>\<open>undefined\<close> is \<open>NaN\<close>.\<close>

fun ToNumber :: "int option \<Rightarrow> number" where
  "ToNumber None = NaN"
| "ToNumber (Some n) = Number n"

text \<open>
  The property \<^verbatim>\<open>length\<close> of a plain object used as a dictionary. An object literal
  has no such property of its own and inherits none, so the read gives
  \<^verbatim>\<open>undefined\<close> unless an entry was stored under the key \<open>length\<close>, in which case it
  gives that entry, an object. Both convert to \<open>NaN\<close>.
\<close>

definition object_length :: "(string \<rightharpoonup> 'a) \<Rightarrow> number" where
  "object_length obj = (case obj ''length'' of None \<Rightarrow> NaN | Some entry \<Rightarrow> NaN)"

text \<open>A value read from the parsed token response: a property may be missing.\<close>

datatype json = JUndefined | JString string | JNumber int

subsection \<open>Errors and replies\<close>

text \<open>
  The errors built by \<^verbatim>\<open>error(name, msg, status)\<close>, one constructor for each name
  the module uses. \<open>TokenRetrievalFailure\<close> carries the status code of the response.
\<close>

datatype error =
    BadRequest
  | InternalError
  | Throttle
  | PendingRegistration
  | InvalidRegistrationCode
  | ExpiredRegistrationCode
  | InvalidState
  | TokenRetrievalFailure int
  | InvalidProductInformation
  | ExpiredDeviceSecret
  | InvalidDeviceSecret

datatype poll_status = slowdown | waiting

datatype reply =
    Registration string string int
  | RegCodeOnly string
  | Message string
  | PollStatus poll_status
  | AccessToken json json

datatype exception = TypeError | SyntaxError | ReferenceError

text \<open>
  The outbound token requests. The closure of the response handlers captures the
  registration code (possibly \<^verbatim>\<open>undefined\<close>) or the device key.
\<close>

datatype grant =
    AuthorizationCode string "string option"
  | RefreshToken json string

text \<open>
  What one synchronous run of an operation does towards its caller: it invokes the
  callback, passes an error to \<^verbatim>\<open>next\<close>, answers with a redirect carrying a state
  token, sends a token request whose answer arrives later, or throws.
\<close>

datatype outcome =
    Callback "error option" "reply option"
  | Next error
  | Redirect string
  | Request grant
  | Throw exception

subsection \<open>The collections\<close>

record regInfo =
  product :: string
  dsn :: string
  deviceSecret :: string
  expires :: int
  lastCall :: "int option"

record tokens =
  access :: json
  refresh :: json
  tokenExpires :: json

record deviceInfo =
  boundSecret :: string
  tokens :: tokens

record store =
  pendingStateToRegCode :: "string \<rightharpoonup> string"
  pendingRegCodeToDevice :: "string \<rightharpoonup> regInfo"
  pendingDeviceToRegCode :: "string \<rightharpoonup> string"
  deviceInformation :: "string \<rightharpoonup> deviceInfo"
  pendingRegistrationQueue :: "string list"
  intervalTimer :: bool

definition initial :: store where
  "initial = \<lparr> pendingStateToRegCode = Map.empty, pendingRegCodeToDevice = Map.empty,
     pendingDeviceToRegCode = Map.empty, deviceInformation = Map.empty,
     pendingRegistrationQueue = [], intervalTimer = False \<rparr>"

text \<open>The key \<^verbatim>\<open>product + ':' + dsn\<close>.\<close>

definition productDsn :: "string \<Rightarrow> string \<Rightarrow> string" where
  "productDsn p d = p @ '':'' @ d"

text \<open>A property key made from a value that may be \<^verbatim>\<open>undefined\<close>.\<close>

definition propertyKey :: "string option \<Rightarrow> string" where
  "propertyKey v = (case v of None \<Rightarrow> ''undefined'' | Some k \<Rightarrow> k)"

subsection \<open>removePendingDevice\<close>

definition removePendingDevice :: "string \<Rightarrow> store \<Rightarrow> store" where
  "removePendingDevice regCode s =
     (case pendingRegCodeToDevice s regCode of
        Some info \<Rightarrow>
          s\<lparr> pendingRegCodeToDevice := (pendingRegCodeToDevice s)(regCode := None),
             pendingDeviceToRegCode :=
               (pendingDeviceToRegCode s)(productDsn (product info) (dsn info) := None) \<rparr>
      | None \<Rightarrow> s)"

subsection \<open>addPendingRegistration\<close>

definition addPendingRegistration ::
  "int \<Rightarrow> string \<Rightarrow> string \<Rightarrow> string \<Rightarrow> string \<Rightarrow> store \<Rightarrow> error option \<times> store" where
  "addPendingRegistration curtime regCode secret p d s =
     (if js_greater_eq (object_length (pendingRegCodeToDevice s)) (Number MAX_PENDING_REG)
      then (Some Throttle, s)
      else if pendingDeviceToRegCode s (productDsn p d) = None
      then (None,
            s\<lparr> pendingRegCodeToDevice := (pendingRegCodeToDevice s)(regCode \<mapsto>
                   \<lparr> product = p, dsn = d, deviceSecret = secret,
                     expires = curtime + 1000 * MAX_REG_SECONDS, lastCall = None \<rparr>),
               pendingDeviceToRegCode := (pendingDeviceToRegCode s)(productDsn p d \<mapsto> regCode),
               pendingRegistrationQueue := pendingRegistrationQueue s @ [regCode],
               intervalTimer := True \<rparr>)
      else (Some PendingRegistration, s))"

subsection \<open>isValidDevice\<close>

text \<open>
  The table \<^verbatim>\<open>config.products\<close> (product to its allowed serial numbers) comes from a
  configuration file; it is a parameter of every operation that validates a device. A
  product outside the table is unknown; the names of the properties that every object
  inherits (\<^verbatim>\<open>constructor\<close> and the like), for which the lookup would not give
  \<^verbatim>\<open>undefined\<close>, are left out of the model.
\<close>

definition isValidDevice :: "(string \<rightharpoonup> string list) \<Rightarrow> string \<Rightarrow> string \<Rightarrow> bool" where
  "isValidDevice products p d =
     (length p \<ge> PRODUCT_MIN_LENGTH \<and> length p \<le> PRODUCT_MAX_LENGTH \<and>
      length d \<ge> DSN_MIN_LENGTH \<and>
      (case products p of None \<Rightarrow> False | Some dsns \<Rightarrow> d \<in> set dsns))"

subsection \<open>checkExpire\<close>

text \<open>
  One run of the sweep at time \<open>curtime\<close>. Each round looks at element 0 of the queue:
  a code with an entry is removed and shifted away when \<open>curtime > expires\<close> and ends the
  loop otherwise; a code without an entry is shifted away.
\<close>

function checkExpire :: "int \<Rightarrow> store \<Rightarrow> store" where
  "checkExpire curtime s =
     (case pendingRegistrationQueue s of
        [] \<Rightarrow> s
      | regCode # rest \<Rightarrow>
          (case pendingRegCodeToDevice s regCode of
             Some info \<Rightarrow>
               if curtime > expires info
               then checkExpire curtime
                      ((removePendingDevice regCode s)\<lparr> pendingRegistrationQueue := rest \<rparr>)
               else s
           | None \<Rightarrow> checkExpire curtime (s\<lparr> pendingRegistrationQueue := rest \<rparr>)))"
  by pat_completeness auto
termination
  by (relation "measure (\<lambda>(curtime, s). length (pendingRegistrationQueue s))")
     (auto simp: removePendingDevice_def split: option.splits)

declare checkExpire.simps [simp del]

subsection \<open>Random identifiers\<close>

text \<open>
  \<^verbatim>\<open>crypto.randomBytes(n, cb)\<close> hands the callback an error or a buffer; the draw is a
  parameter, \<open>None\<close> for the error. \<^verbatim>\<open>toString('hex')\<close> writes two lower-case
  digits for each byte.
\<close>

definition hexDigit :: "nat \<Rightarrow> char" where
  "hexDigit n = ''0123456789abcdef'' ! n"

definition toString_hex :: "8 word list \<Rightarrow> string" where
  "toString_hex buf =
     concat (map (\<lambda>b. [hexDigit (unat b div 16), hexDigit (unat b mod 16)]) buf)"

text \<open>What the callback of \<^verbatim>\<open>crypto.randomBytes(n, cb)\<close> can receive: an error, or \<open>n\<close> bytes.\<close>

definition randomBytes :: "nat \<Rightarrow> 8 word list option \<Rightarrow> bool" where
  "randomBytes n buf = (case buf of None \<Rightarrow> True | Some b \<Rightarrow> length b = n)"

subsection \<open>getRegCode\<close>

definition getRegCode ::
  "(string \<rightharpoonup> string list) \<Rightarrow> string \<Rightarrow> string \<Rightarrow> 8 word list option \<Rightarrow> 8 word list option
     \<Rightarrow> int \<Rightarrow> store \<Rightarrow> outcome \<times> store" where
  "getRegCode products p d regCodeBuffer deviceSecretBuffer curtime s =
     (if \<not> isValidDevice products p d then (Callback (Some BadRequest) None, s)
      else case regCodeBuffer of
        None \<Rightarrow> (Callback (Some InternalError) None, s)
      | Some rb \<Rightarrow>
          (case deviceSecretBuffer of
             None \<Rightarrow> (Callback (Some InternalError) None, s)
           | Some sb \<Rightarrow>
               let regCode = toString_hex rb;
                   secret = toString_hex sb;
                   (registrationError, s') = addPendingRegistration curtime regCode secret p d s
               in if registrationError = None
                  then (case pendingRegCodeToDevice s' regCode of
                          Some info \<Rightarrow>
                            (Callback None (Some (Registration regCode secret (expires info))), s')
                        | None \<Rightarrow> (Throw TypeError, s'))
                  else (Callback registrationError (Some (RegCodeOnly regCode)), s')))"

subsection \<open>register\<close>

definition redirectToDeviceAuthenticate ::
  "string \<Rightarrow> 8 word list option \<Rightarrow> store \<Rightarrow> outcome \<times> store" where
  "redirectToDeviceAuthenticate regCode buf s =
     (case buf of
        None \<Rightarrow> (Next InternalError, s)
      | Some b \<Rightarrow>
          let state = toString_hex b
          in (Redirect state,
              s\<lparr> pendingStateToRegCode := (pendingStateToRegCode s)(state \<mapsto> regCode) \<rparr>))"

definition register :: "string \<Rightarrow> 8 word list option \<Rightarrow> int \<Rightarrow> store \<Rightarrow> outcome \<times> store" where
  "register regCode buf curtime s =
     (if length regCode \<noteq> REG_NUM_BYTES * 2 then (Callback (Some InvalidRegistrationCode) None, s)
      else case pendingRegCodeToDevice s regCode of
        None \<Rightarrow> (Callback (Some InvalidRegistrationCode) None, s)
      | Some prodInfo \<Rightarrow>
          if expires prodInfo > curtime
          then redirectToDeviceAuthenticate regCode buf s
          else (Callback (Some ExpiredRegistrationCode) None, removePendingDevice regCode s))"

subsection \<open>retrieveTokens\<close>

text \<open>
  The answer of the token endpoint as the handlers see it: the status code and the data
  events in order. \<^verbatim>\<open>JSON.parse\<close> is a parameter giving the three properties the
  handlers read, or \<open>None\<close> when it throws.
\<close>

record response =
  statusCode :: int
  chunks :: "string list"

record lwa_result =
  access_token :: json
  refresh_token :: json
  expires_in :: json

text \<open>A string is truthy unless it is empty; a missing property is \<^verbatim>\<open>undefined\<close>.\<close>

definition truthy :: "string option \<Rightarrow> bool" where
  "truthy v = (case v of None \<Rightarrow> False | Some str \<Rightarrow> str \<noteq> [])"

text \<open>
  The synchronous part: up to the sending of the token request, or to the callback when
  no request is sent.
\<close>

definition retrieveTokens :: "string \<Rightarrow> string \<Rightarrow> int \<Rightarrow> store \<Rightarrow> outcome \<times> store" where
  "retrieveTokens authcode stateCode curtime s =
     (if length stateCode \<noteq> STATE_NUM_BYTES * 2 \<or> truthy (pendingStateToRegCode s stateCode)
      then
        let regCode = pendingStateToRegCode s stateCode;
            s1 = s\<lparr> pendingStateToRegCode := (pendingStateToRegCode s)(stateCode := None) \<rparr>
        in (case pendingRegCodeToDevice s1 (propertyKey regCode) of
              Some info \<Rightarrow>
                if expires info > curtime
                then (Request (AuthorizationCode authcode regCode), s1)
                else (Callback (Some ExpiredRegistrationCode) None,
                      removePendingDevice (propertyKey regCode) s1)
            | None \<Rightarrow>
                (Callback (Some ExpiredRegistrationCode) None,
                 removePendingDevice (propertyKey regCode) s1))
      else (Callback (Some InvalidState) None, s))"

text \<open>
  The callbacks of the \<^verbatim>\<open>data\<close> events: with a status other than 200 each event
  reports a failure; with 200 the events only fill the buffer.
\<close>

definition dataCallbacks :: "response \<Rightarrow> outcome list" where
  "dataCallbacks res =
     (if statusCode res = 200 then []
      else map (\<lambda>data. Callback (Some (TokenRetrievalFailure (statusCode res))) None) (chunks res))"

text \<open>The buffer at the \<^verbatim>\<open>end\<close> event: \<^verbatim>\<open>null\<close> unless a 200 response had data.\<close>

definition resultBuffer :: "response \<Rightarrow> string option" where
  "resultBuffer res =
     (if statusCode res = 200 \<and> chunks res \<noteq> [] then Some (concat (chunks res)) else None)"

text \<open>
  The \<^verbatim>\<open>end\<close> handler of the authorization-code request, run in the store as it is
  when the answer has arrived.
\<close>

definition retrieveTokens_end ::
  "(string \<Rightarrow> lwa_result option) \<Rightarrow> string option \<Rightarrow> response \<Rightarrow> store \<Rightarrow> outcome \<times> store" where
  "retrieveTokens_end JSON_parse regCode res s =
     (case (if statusCode res = 200 then resultBuffer res else None) of
        Some buffer \<Rightarrow>
          (case JSON_parse buffer of
             None \<Rightarrow> (Throw SyntaxError, s)
           | Some result \<Rightarrow>
               (case pendingRegCodeToDevice s (propertyKey regCode) of
                  None \<Rightarrow> (Throw TypeError, s)
                | Some info \<Rightarrow>
                    (Callback None (Some (Message ''device tokens ready'')),
                     removePendingDevice (propertyKey regCode)
                       (s\<lparr> deviceInformation := (deviceInformation s)
                            (productDsn (product info) (dsn info) \<mapsto>
                               \<lparr> boundSecret = deviceSecret info,
                                 tokens = \<lparr> access = access_token result,
                                            refresh = refresh_token result,
                                            tokenExpires = expires_in result \<rparr> \<rparr>) \<rparr>))))
      | None \<Rightarrow> (Callback (Some (TokenRetrievalFailure (statusCode res))) None, s))"

text \<open>The whole answer: the callbacks of the data events, then the end handler.\<close>

definition retrieveTokens_response ::
  "(string \<Rightarrow> lwa_result option) \<Rightarrow> string option \<Rightarrow> response \<Rightarrow> store
     \<Rightarrow> outcome list \<times> store" where
  "retrieveTokens_response JSON_parse regCode res s =
     (let (out, s') = retrieveTokens_end JSON_parse regCode res s
      in (dataCallbacks res @ [out], s'))"

subsection \<open>getAccessToken\<close>

definition getAccessToken ::
  "(string \<rightharpoonup> string list) \<Rightarrow> string \<Rightarrow> string \<Rightarrow> string \<Rightarrow> int \<Rightarrow> store \<Rightarrow> outcome \<times> store" where
  "getAccessToken products p d secret curtime s =
     (if \<not> isValidDevice products p d then (Callback (Some BadRequest) None, s)
      else case pendingDeviceToRegCode s (productDsn p d) of
        Some regCode \<Rightarrow>
          (case pendingRegCodeToDevice s regCode of
             None \<Rightarrow> (Throw TypeError, s)
           | Some regInfo \<Rightarrow>
               if expires regInfo > curtime
               then if product regInfo = p \<and> dsn regInfo = d
                    then
                      let interval =
                            (if lastCall regInfo = Some 0 then Number (MIN_POLL_RATE + 1)
                             else js_minus (Number curtime) (ToNumber (lastCall regInfo)));
                          backoffStatus =
                            (if js_less interval (Number MIN_POLL_RATE) then slowdown else waiting)
                      in (Callback None (Some (PollStatus backoffStatus)),
                          s\<lparr> pendingRegCodeToDevice := (pendingRegCodeToDevice s)
                               (regCode \<mapsto> regInfo\<lparr> lastCall := Some curtime \<rparr>) \<rparr>)
                    else (Callback (Some InvalidProductInformation) None, s)
               else (Callback (Some ExpiredDeviceSecret) None, s))
      | None \<Rightarrow>
          (case deviceInformation s (productDsn p d) of
             Some info \<Rightarrow>
               if length secret = REG_NUM_BYTES * 2 \<and> boundSecret info = secret
               then (Request (RefreshToken (refresh (tokens info)) (productDsn p d)), s)
               else (Callback (Some InvalidDeviceSecret) None, s)
           | None \<Rightarrow> (Callback (Some InvalidDeviceSecret) None, s)))"

text \<open>
  The \<^verbatim>\<open>end\<close> handler of the refresh request. Its failure branch reads the
  identifier \<^verbatim>\<open>data\<close>, which is not bound there, before it reaches the callback.
\<close>

definition getAccessToken_end ::
  "(string \<Rightarrow> lwa_result option) \<Rightarrow> string \<Rightarrow> response \<Rightarrow> store \<Rightarrow> outcome \<times> store" where
  "getAccessToken_end JSON_parse key res s =
     (case (if statusCode res = 200 then resultBuffer res else None) of
        Some buffer \<Rightarrow>
          (case JSON_parse buffer of
             None \<Rightarrow> (Throw SyntaxError, s)
           | Some result \<Rightarrow>
               (case deviceInformation s key of
                  None \<Rightarrow> (Throw TypeError, s)
                | Some info \<Rightarrow>
                    (Callback None
                       (Some (AccessToken (access_token result) (expires_in result))),
                     s\<lparr> deviceInformation := (deviceInformation s)
                          (key \<mapsto> info\<lparr> tokens := (tokens info)
                             \<lparr> access := access_token result,
                               tokenExpires := expires_in result \<rparr> \<rparr>) \<rparr>)))
      | None \<Rightarrow> (Throw ReferenceError, s))"

subsection \<open>Reachable stores\<close>

text \<open>
  The stores the module can be in when the clock has not passed \<open>now\<close>: it starts with
  empty collections, and each request, each answer of the token endpoint and each tick
  of the sweep timer runs one of the operations above, with any arguments and any
  outcome of the random draws, at a time up to \<open>now\<close>.
\<close>

inductive reachable ::
  "(string \<rightharpoonup> string list) \<Rightarrow> (string \<Rightarrow> lwa_result option) \<Rightarrow> int \<Rightarrow> store \<Rightarrow> bool"
  for products :: "string \<rightharpoonup> string list" and JSON_parse :: "string \<Rightarrow> lwa_result option"
    and now :: int where
  start: "reachable products JSON_parse now initial"
| regcode: "reachable products JSON_parse now s \<Longrightarrow> curtime \<le> now \<Longrightarrow>
     randomBytes REG_NUM_BYTES rb \<Longrightarrow> randomBytes REG_NUM_BYTES sb \<Longrightarrow>
     reachable products JSON_parse now (snd (getRegCode products p d rb sb curtime s))"
| registration: "reachable products JSON_parse now s \<Longrightarrow> curtime \<le> now \<Longrightarrow>
     randomBytes STATE_NUM_BYTES buf \<Longrightarrow>
     reachable products JSON_parse now (snd (register regCode buf curtime s))"
| authresponse: "reachable products JSON_parse now s \<Longrightarrow> curtime \<le> now \<Longrightarrow>
     reachable products JSON_parse now (snd (retrieveTokens authcode stateCode curtime s))"
| authorized: "reachable products JSON_parse now s \<Longrightarrow>
     reachable products JSON_parse now (snd (retrieveTokens_end JSON_parse code res s))"
| accesstoken: "reachable products JSON_parse now s \<Longrightarrow> curtime \<le> now \<Longrightarrow>
     reachable products JSON_parse now (snd (getAccessToken products p d secret curtime s))"
| refreshed: "reachable products JSON_parse now s \<Longrightarrow>
     reachable products JSON_parse now (snd (getAccessToken_end JSON_parse key res s))"
| sweep: "reachable products JSON_parse now s \<Longrightarrow> curtime \<le> now \<Longrightarrow>
     reachable products JSON_parse now (checkExpire curtime s)"

text \<open>
  The same with a clock that reads a positive number of milliseconds at every operation:
  the stores of a server that runs after 1 January 1970.
\<close>

inductive reachable_after_epoch ::
  "(string \<rightharpoonup> string list) \<Rightarrow> (string \<Rightarrow> lwa_result option) \<Rightarrow> int \<Rightarrow> store \<Rightarrow> bool"
  for products :: "string \<rightharpoonup> string list" and JSON_parse :: "string \<Rightarrow> lwa_result option"
    and now :: int where
  start: "reachable_after_epoch products JSON_parse now initial"
| regcode: "reachable_after_epoch products JSON_parse now s \<Longrightarrow>
     0 < curtime \<Longrightarrow> curtime \<le> now \<Longrightarrow>
     randomBytes REG_NUM_BYTES rb \<Longrightarrow> randomBytes REG_NUM_BYTES sb \<Longrightarrow>
     reachable_after_epoch products JSON_parse now (snd (getRegCode products p d rb sb curtime s))"
| registration: "reachable_after_epoch products JSON_parse now s \<Longrightarrow>
     0 < curtime \<Longrightarrow> curtime \<le> now \<Longrightarrow>
     randomBytes STATE_NUM_BYTES buf \<Longrightarrow>
     reachable_after_epoch products JSON_parse now (snd (register regCode buf curtime s))"
| authresponse: "reachable_after_epoch products JSON_parse now s \<Longrightarrow>
     0 < curtime \<Longrightarrow> curtime \<le> now \<Longrightarrow>
     reachable_after_epoch products JSON_parse now
       (snd (retrieveTokens authcode stateCode curtime s))"
| authorized: "reachable_after_epoch products JSON_parse now s \<Longrightarrow>
     reachable_after_epoch products JSON_parse now (snd (retrieveTokens_end JSON_parse code res s))"
| accesstoken: "reachable_after_epoch products JSON_parse now s \<Longrightarrow>
     0 < curtime \<Longrightarrow> curtime \<le> now \<Longrightarrow>
     reachable_after_epoch products JSON_parse now
       (snd (getAccessToken products p d secret curtime s))"
| refreshed: "reachable_after_epoch products JSON_parse now s \<Longrightarrow>
     reachable_after_epoch products JSON_parse now (snd (getAccessToken_end JSON_parse key res s))"
| sweep: "reachable_after_epoch products JSON_parse now s \<Longrightarrow>
     0 < curtime \<Longrightarrow> curtime \<le> now \<Longrightarrow>
     reachable_after_epoch products JSON_parse now (checkExpire curtime s)"

subsection \<open>The coupling of the two pending maps\<close>

text \<open>
  Every entry of the code map is indexed: the device key of the entry leads back to the
  code of the entry.
\<close>

definition coupled :: "store \<Rightarrow> bool" where
  "coupled s =
     (\<forall>c info. pendingRegCodeToDevice s c = Some info \<longrightarrow>
        pendingDeviceToRegCode s (productDsn (product info) (dsn info)) = Some c)"

subsection \<open>The shape of the stored identifiers\<close>

text \<open>
  State tokens are the hex strings of \<open>STATE_NUM_BYTES\<close> bytes, registration codes those
  of \<open>REG_NUM_BYTES\<close> bytes.
\<close>

definition shaped :: "store \<Rightarrow> bool" where
  "shaped s =
     ((\<forall>stateCode regCode. pendingStateToRegCode s stateCode = Some regCode \<longrightarrow>
         length stateCode = STATE_NUM_BYTES * 2 \<and> length regCode = REG_NUM_BYTES * 2) \<and>
      (\<forall>regCode info. pendingRegCodeToDevice s regCode = Some info \<longrightarrow>
         length regCode = REG_NUM_BYTES * 2))"

subsection \<open>What the sweep shifts away\<close>

text \<open>
  A code at the head of the queue is shifted away by the sweep at \<open>curtime\<close> when it has no
  entry in the code map, or when its entry satisfies \<open>curtime > expires\<close>.
\<close>

definition stale :: "int \<Rightarrow> store \<Rightarrow> string \<Rightarrow> bool" where
  "stale curtime s regCode =
     (case pendingRegCodeToDevice s regCode of
        None \<Rightarrow> True
      | Some info \<Rightarrow> curtime > expires info)"

subsection \<open>The bound on expiry times\<close>

text \<open>Every pending registration expires within the registration period after \<open>now\<close>.\<close>

definition expiresBy :: "int \<Rightarrow> store \<Rightarrow> bool" where
  "expiresBy now s =
     (\<forall>c info. pendingRegCodeToDevice s c = Some info \<longrightarrow>
        expires info \<le> now + 1000 * MAX_REG_SECONDS)"

subsection \<open>The recorded poll times\<close>

text \<open>No registration records 0 as the time of its last poll.\<close>

definition polledAfterEpoch :: "store \<Rightarrow> bool" where
  "polledAfterEpoch s =
     (\<forall>c info. pendingRegCodeToDevice s c = Some info \<longrightarrow> lastCall info \<noteq> Some 0)"

subsection \<open>A sample run\<close>

text \<open>
  One configured product with two serial numbers, and the store after the first device
  has asked for a registration code.
\<close>

definition products1 :: "string \<rightharpoonup> string list" where
  "products1 = [''speaker'' \<mapsto> [''DSN1'', ''DSN2'']]"

definition regCodeBuffer1 :: "8 word list" where
  "regCodeBuffer1 = [0x01, 0x23, 0x45, 0x67, 0x89, 0xab, 0xcd, 0xef, 0x01, 0x23, 0x45, 0x67]"

definition deviceSecretBuffer1 :: "8 word list" where
  "deviceSecretBuffer1 = [0xaa, 0xaa, 0xaa, 0xaa, 0xaa, 0xaa, 0xaa, 0xaa, 0xaa, 0xaa, 0xaa, 0xaa]"

definition regCode1 :: string where
  "regCode1 = ''0123456789abcdef01234567''"

definition secret1 :: string where
  "secret1 = ''aaaaaaaaaaaaaaaaaaaaaaaa''"

definition createdAt1 :: int where
  "createdAt1 = 1700000000000"

definition regInfo1 :: regInfo where
  "regInfo1 = \<lparr> product = ''speaker'', dsn = ''DSN1'', deviceSecret = secret1,
      expires = createdAt1 + 900000, lastCall = None \<rparr>"

definition pending1 :: store where
  "pending1 = snd (getRegCode products1 ''speaker'' ''DSN1''
                    (Some regCodeBuffer1) (Some deviceSecretBuffer1) createdAt1 initial)"

text \<open>
  The run goes on: the user opens the registration page, which issues a state token; the
  identity provider redirects back and the token request is sent; its answer carries the
  tokens. \<open>JSON_parse1\<close> reads the one body the sample endpoint sends. Further stores: the
  first device after a poll, and the same registration made and polled at time 0.
\<close>

definition wrongSecret :: string where
  "wrongSecret = ''bbbbbbbbbbbbbbbbbbbbbbbb''"

definition stateBuffer1 :: "8 word list" where
  "stateBuffer1 = [0x5c, 0x5c, 0x5c, 0x5c, 0x5c, 0x5c, 0x5c, 0x5c,
                   0x5c, 0x5c, 0x5c, 0x5c, 0x5c, 0x5c, 0x5c, 0x5c,
                   0x5c, 0x5c, 0x5c, 0x5c, 0x5c, 0x5c, 0x5c, 0x5c,
                   0x5c, 0x5c, 0x5c, 0x5c, 0x5c, 0x5c, 0x5c, 0x5c]"

definition stateCode1 :: string where
  "stateCode1 = ''5c5c5c5c5c5c5c5c5c5c5c5c5c5c5c5c5c5c5c5c5c5c5c5c5c5c5c5c5c5c5c5c''"

definition registered1 :: store where
  "registered1 = snd (register regCode1 (Some stateBuffer1) (createdAt1 + 1000) pending1)"

definition exchanging1 :: store where
  "exchanging1 = snd (retrieveTokens ''authcode123'' stateCode1 (createdAt1 + 2000) registered1)"

definition tokenBody1 :: string where
  \<open>tokenBody1 = ''{"access_token":"A","refresh_token":"R","expires_in":3600}''\<close>

definition JSON_parse1 :: "string \<Rightarrow> lwa_result option" where
  "JSON_parse1 body =
     (if body = tokenBody1
      then Some \<lparr> access_token = JString ''A'', refresh_token = JString ''R'',
                  expires_in = JNumber 3600 \<rparr>
      else None)"

definition promoted1 :: store where
  "promoted1 = snd (retrieveTokens_response JSON_parse1 (Some regCode1)
                      \<lparr> statusCode = 200, chunks = [tokenBody1] \<rparr> exchanging1)"


definition pending0 :: store where
  "pending0 = snd (getRegCode products1 ''speaker'' ''DSN1''
                    (Some regCodeBuffer1) (Some deviceSecretBuffer1) 0 initial)"

definition polled0 :: store where
  "polled0 = snd (getAccessToken products1 ''speaker'' ''DSN1'' secret1 0 pending0)"

text \<open>
  A late login: the identity provider redirects back one millisecond before the sample
  registration expires, the token request is sent, and the sweep runs two milliseconds
  later, before the answer arrives.
\<close>

definition lateExchange1 :: store where
  "lateExchange1 =
     snd (retrieveTokens ''authcode123'' stateCode1 (createdAt1 + 899999) registered1)"

definition swept1 :: store where
  "swept1 = checkExpire (createdAt1 + 900001) lateExchange1"

subsection \<open>A store at capacity\<close>

text \<open>
  \<open>MAX_PENDING_REG\<close> registrations, for the serial numbers that are the codes
  themselves: code \<open>n\<close> is the hex string of ten zero bytes followed by the two bytes
  of \<open>n\<close>.
\<close>

definition bytesOf :: "nat \<Rightarrow> 8 word list" where
  "bytesOf n = replicate 10 0 @ [of_nat (n div 256), of_nat (n mod 256)]"

definition codeOf :: "nat \<Rightarrow> string" where
  "codeOf n = toString_hex (bytesOf n)"

definition fullCodes :: "string list" where
  "fullCodes = map codeOf [0..<50000]"

definition fullStore :: store where
  "fullStore =
     \<lparr> pendingStateToRegCode = Map.empty,
       pendingRegCodeToDevice = map_of (map (\<lambda>c. (c,
          \<lparr> product = ''speaker'', dsn = c, deviceSecret = secret1,
            expires = createdAt1 + 900000, lastCall = None \<rparr>)) fullCodes),
       pendingDeviceToRegCode = map_of (map (\<lambda>c. (productDsn ''speaker'' c, c)) fullCodes),
       deviceInformation = Map.empty,
       pendingRegistrationQueue = fullCodes,
       intervalTimer = True \<rparr>"

section \<open>Properties of the store operations\<close>

subsection \<open>Removal and insertion\<close>

lemma removePendingDevice_queue [simp]:
  "pendingRegistrationQueue (removePendingDevice c s) = pendingRegistrationQueue s"
  by (simp add: removePendingDevice_def split: option.splits)

lemma coupled_initial: "coupled initial"
  by (simp add: coupled_def initial_def)

lemma removePendingDevice_absent:
  "pendingRegCodeToDevice s c = None \<Longrightarrow> removePendingDevice c s = s"
  by (simp add: removePendingDevice_def)

lemma removePendingDevice_present:
  "pendingRegCodeToDevice s c = Some info \<Longrightarrow>
   removePendingDevice c s =
     s\<lparr> pendingRegCodeToDevice := (pendingRegCodeToDevice s)(c := None),
        pendingDeviceToRegCode :=
          (pendingDeviceToRegCode s)(productDsn (product info) (dsn info) := None) \<rparr>"
  by (simp add: removePendingDevice_def)

lemma coupled_remove:
  assumes cs: "coupled s"
  shows "coupled (removePendingDevice c s)"
proof (cases "pendingRegCodeToDevice s c")
  case None
  then show ?thesis using cs by (simp add: removePendingDevice_absent)
next
  case (Some info)
  note rm = removePendingDevice_present [OF Some]
  show ?thesis
    unfolding coupled_def
  proof (intro allI impI)
    fix c' info'
    assume a: "pendingRegCodeToDevice (removePendingDevice c s) c' = Some info'"
    have ne: "c' \<noteq> c" using a by (auto simp: rm)
    then have at: "pendingRegCodeToDevice s c' = Some info'" using a by (simp add: rm)
    have idx: "pendingDeviceToRegCode s (productDsn (product info') (dsn info')) = Some c'"
      using cs at by (simp add: coupled_def)
    have "pendingDeviceToRegCode s (productDsn (product info) (dsn info)) = Some c"
      using cs Some by (simp add: coupled_def)
    then have "productDsn (product info') (dsn info') \<noteq> productDsn (product info) (dsn info)"
      using idx ne by auto
    then show "pendingDeviceToRegCode (removePendingDevice c s)
                 (productDsn (product info') (dsn info')) = Some c'"
      using idx by (simp add: rm)
  qed
qed

lemma addPendingRegistration_cases:
  "addPendingRegistration t c sec p d s =
     (if pendingDeviceToRegCode s (productDsn p d) = None
      then (None,
            s\<lparr> pendingRegCodeToDevice := (pendingRegCodeToDevice s)(c \<mapsto>
                   \<lparr> product = p, dsn = d, deviceSecret = sec,
                     expires = t + 1000 * MAX_REG_SECONDS, lastCall = None \<rparr>),
               pendingDeviceToRegCode := (pendingDeviceToRegCode s)(productDsn p d \<mapsto> c),
               pendingRegistrationQueue := pendingRegistrationQueue s @ [c],
               intervalTimer := True \<rparr>)
      else (Some PendingRegistration, s))"
  by (simp add: addPendingRegistration_def object_length_def split: option.splits)

lemma coupled_add:
  assumes cs: "coupled s"
  shows "coupled (snd (addPendingRegistration t c sec p d s))"
proof (cases "pendingDeviceToRegCode s (productDsn p d) = None")
  case False
  then have "addPendingRegistration t c sec p d s = (Some PendingRegistration, s)"
    by (simp add: addPendingRegistration_cases)
  then show ?thesis using cs by simp
next
  case True
  let ?s' = "snd (addPendingRegistration t c sec p d s)"
  have m: "pendingRegCodeToDevice ?s' = (pendingRegCodeToDevice s)(c \<mapsto>
             \<lparr> product = p, dsn = d, deviceSecret = sec,
               expires = t + 1000 * MAX_REG_SECONDS, lastCall = None \<rparr>)"
    and i: "pendingDeviceToRegCode ?s' = (pendingDeviceToRegCode s)(productDsn p d \<mapsto> c)"
    using True by (simp_all add: addPendingRegistration_cases)
  show ?thesis
    unfolding coupled_def
  proof (intro allI impI)
    fix c' info'
    assume a: "pendingRegCodeToDevice ?s' c' = Some info'"
    show "pendingDeviceToRegCode ?s' (productDsn (product info') (dsn info')) = Some c'"
    proof (cases "c' = c")
      case True
      then show ?thesis using a by (auto simp: m i)
    next
      case False
      then have at: "pendingRegCodeToDevice s c' = Some info'" using a by (simp add: m)
      then have idx: "pendingDeviceToRegCode s (productDsn (product info') (dsn info')) = Some c'"
        using cs by (simp add: coupled_def)
      then have "productDsn (product info') (dsn info') \<noteq> productDsn p d"
        using True by auto
      then show ?thesis using idx by (simp add: i)
    qed
  qed
qed

lemma coupled_queue [simp]: "coupled (s\<lparr> pendingRegistrationQueue := q \<rparr>) = coupled s"
  by (simp add: coupled_def)

lemma coupled_state [simp]: "coupled (s\<lparr> pendingStateToRegCode := q \<rparr>) = coupled s"
  by (simp add: coupled_def)

lemma coupled_devinfo [simp]: "coupled (s\<lparr> deviceInformation := q \<rparr>) = coupled s"
  by (simp add: coupled_def)

lemma coupled_checkExpire: "coupled s \<Longrightarrow> coupled (checkExpire t s)"
proof (induction t s rule: checkExpire.induct)
  case (1 curtime s)
  show ?case
  proof (cases "pendingRegistrationQueue s")
    case Nil
    then show ?thesis using "1.prems" by (simp add: checkExpire.simps)
  next
    case (Cons regCode rest)
    show ?thesis
    proof (cases "pendingRegCodeToDevice s regCode")
      case None
      then show ?thesis
        using Cons "1.IH"(1)[OF Cons None] "1.prems"
        by (simp add: checkExpire.simps [of curtime s])
    next
      case (Some info)
      show ?thesis
      proof (cases "curtime > expires info")
        case True
        have "coupled ((removePendingDevice regCode s)\<lparr> pendingRegistrationQueue := rest \<rparr>)"
          using "1.prems" coupled_remove by simp
        then show ?thesis
          using Cons Some True "1.IH"(2)[OF Cons Some]
          by (simp add: checkExpire.simps [of curtime s])
      next
        case False
        then show ?thesis
          using Cons Some "1.prems" by (simp add: checkExpire.simps [of curtime s])
      qed
    qed
  qed
qed

lemma coupled_getRegCode:
  assumes cs: "coupled s"
  shows "coupled (snd (getRegCode products p d rb sb t s))"
proof (cases "isValidDevice products p d \<and> rb \<noteq> None \<and> sb \<noteq> None")
  case False
  then show ?thesis using cs by (auto simp: getRegCode_def split: option.splits)
next
  case True
  then obtain r b where rb: "rb = Some r" and sb: "sb = Some b" by auto
  obtain e s' where add: "addPendingRegistration t (toString_hex r) (toString_hex b) p d s = (e, s')"
    by (cases "addPendingRegistration t (toString_hex r) (toString_hex b) p d s")
  have "coupled s'"
    using coupled_add [OF cs, of t "toString_hex r" "toString_hex b" p d] add by simp
  moreover have "snd (getRegCode products p d rb sb t s) = s'"
    using True rb sb add by (simp add: getRegCode_def Let_def split: option.splits)
  ultimately show ?thesis by simp
qed

lemma coupled_lastCall:
  assumes cs: "coupled s" and at: "pendingRegCodeToDevice s c = Some info"
  shows "coupled (s\<lparr> pendingRegCodeToDevice :=
           (pendingRegCodeToDevice s)(c \<mapsto> info\<lparr> lastCall := v \<rparr>) \<rparr>)"
  using cs at unfolding coupled_def by auto

lemma coupled_register: "coupled s \<Longrightarrow> coupled (snd (register c buf t s))"
  by (simp add: register_def redirectToDeviceAuthenticate_def Let_def coupled_remove
      split: option.splits)

lemma coupled_retrieveTokens: "coupled s \<Longrightarrow> coupled (snd (retrieveTokens a st t s))"
  by (simp add: retrieveTokens_def Let_def coupled_remove split: option.splits)

lemma coupled_retrieveTokens_end: "coupled s \<Longrightarrow> coupled (snd (retrieveTokens_end P c res s))"
  by (simp add: retrieveTokens_end_def Let_def coupled_remove split: option.splits)

lemma coupled_getAccessToken: "coupled s \<Longrightarrow> coupled (snd (getAccessToken products p d sec t s))"
  by (simp add: getAccessToken_def Let_def coupled_lastCall split: option.splits)

lemma coupled_getAccessToken_end: "coupled s \<Longrightarrow> coupled (snd (getAccessToken_end P k res s))"
  by (simp add: getAccessToken_end_def Let_def split: option.splits)

lemma coupled_unique:
  "coupled s \<Longrightarrow> pendingRegCodeToDevice s c1 = Some i1 \<Longrightarrow> pendingRegCodeToDevice s c2 = Some i2
   \<Longrightarrow> product i1 = product i2 \<Longrightarrow> dsn i1 = dsn i2 \<Longrightarrow> c1 = c2"
  unfolding coupled_def by (metis option.inject)

lemma reachable_coupled: "reachable products P now s \<Longrightarrow> coupled s"
  by (induction rule: reachable.induct)
     (simp_all add: coupled_initial coupled_getRegCode coupled_register coupled_retrieveTokens
        coupled_retrieveTokens_end coupled_getAccessToken coupled_getAccessToken_end
        coupled_checkExpire)

subsection \<open>The sample run\<close>

lemma hex1: "toString_hex regCodeBuffer1 = regCode1"
  by (simp add: toString_hex_def regCodeBuffer1_def regCode1_def hexDigit_def)

lemma hex2: "toString_hex deviceSecretBuffer1 = secret1"
  by (simp add: toString_hex_def deviceSecretBuffer1_def secret1_def hexDigit_def)

lemma valid1: "isValidDevice products1 ''speaker'' ''DSN1''"
  by (simp add: isValidDevice_def products1_def PRODUCT_MIN_LENGTH_def PRODUCT_MAX_LENGTH_def
      DSN_MIN_LENGTH_def)

lemma pending1_eq:
  "pending1 = \<lparr> pendingStateToRegCode = Map.empty,
       pendingRegCodeToDevice = [regCode1 \<mapsto> regInfo1],
       pendingDeviceToRegCode = [''speaker:DSN1'' \<mapsto> regCode1],
       deviceInformation = Map.empty,
       pendingRegistrationQueue = [regCode1], intervalTimer = True \<rparr>"
  by (simp add: pending1_def getRegCode_def valid1 hex1 hex2 addPendingRegistration_cases
      initial_def productDsn_def regInfo1_def MAX_REG_SECONDS_def)

lemma pending1_reachable: "reachable products1 P createdAt1 pending1"
  unfolding pending1_def
  by (rule reachable.regcode [OF reachable.start])
     (simp_all add: randomBytes_def regCodeBuffer1_def deviceSecretBuffer1_def REG_NUM_BYTES_def)

subsection \<open>The sweep\<close>

lemma checkExpire_Nil:
  "pendingRegistrationQueue s = [] \<Longrightarrow> checkExpire t s = s"
  by (simp add: checkExpire.simps [of t s])

lemma checkExpire_absent:
  "pendingRegistrationQueue s = c # rest \<Longrightarrow> pendingRegCodeToDevice s c = None \<Longrightarrow>
   checkExpire t s = checkExpire t (s\<lparr> pendingRegistrationQueue := rest \<rparr>)"
  by (simp add: checkExpire.simps [of t s])

lemma checkExpire_expired:
  "pendingRegistrationQueue s = c # rest \<Longrightarrow> pendingRegCodeToDevice s c = Some info \<Longrightarrow>
   t > expires info \<Longrightarrow>
   checkExpire t s =
     checkExpire t ((removePendingDevice c s)\<lparr> pendingRegistrationQueue := rest \<rparr>)"
  by (simp add: checkExpire.simps [of t s])

lemma checkExpire_stop:
  "pendingRegistrationQueue s = c # rest \<Longrightarrow> pendingRegCodeToDevice s c = Some info \<Longrightarrow>
   \<not> t > expires info \<Longrightarrow> checkExpire t s = s"
  by (simp add: checkExpire.simps [of t s])

lemma stale_queue [simp]: "stale t (s\<lparr> pendingRegistrationQueue := q \<rparr>) = stale t s"
  by (rule ext) (simp add: stale_def)

lemma stale_remove:
  assumes "pendingRegCodeToDevice s c = Some info" and "t > expires info"
  shows "stale t (removePendingDevice c s) = stale t s"
proof (rule ext)
  fix c'
  show "stale t (removePendingDevice c s) c' = stale t s c'"
    using assms by (cases "c' = c") (simp_all add: stale_def removePendingDevice_present)
qed

lemma removePendingDevice_codes:
  "pendingRegCodeToDevice (removePendingDevice c s) c' =
     (if c' = c then None else pendingRegCodeToDevice s c')"
  by (simp add: removePendingDevice_def split: option.splits)

lemma checkExpire_queue:
  "pendingRegistrationQueue (checkExpire t s) = dropWhile (stale t s) (pendingRegistrationQueue s)"
proof (induction t s rule: checkExpire.induct)
  case (1 curtime s)
  show ?case
  proof (cases "pendingRegistrationQueue s")
    case Nil
    then show ?thesis by (simp add: checkExpire_Nil)
  next
    case (Cons c rest)
    show ?thesis
    proof (cases "pendingRegCodeToDevice s c")
      case None
      then have "stale curtime s c" by (simp add: stale_def)
      then show ?thesis
        using "1.IH"(1) [OF Cons None] Cons None by (simp add: checkExpire_absent)
    next
      case (Some info)
      show ?thesis
      proof (cases "curtime > expires info")
        case True
        then have "stale curtime s c" using Some by (simp add: stale_def)
        then show ?thesis
          using "1.IH"(2) [OF Cons Some True] Cons Some True
          by (simp add: checkExpire_expired stale_remove)
      next
        case False
        then have "\<not> stale curtime s c" using Some by (simp add: stale_def)
        then show ?thesis using Cons Some False by (simp add: checkExpire_stop)
      qed
    qed
  qed
qed

lemma checkExpire_codes:
  "pendingRegCodeToDevice (checkExpire t s) c' =
     (if c' \<in> set (takeWhile (stale t s) (pendingRegistrationQueue s)) then None
      else pendingRegCodeToDevice s c')"
proof (induction t s rule: checkExpire.induct)
  case (1 curtime s)
  show ?case
  proof (cases "pendingRegistrationQueue s")
    case Nil
    then show ?thesis by (simp add: checkExpire_Nil)
  next
    case (Cons c rest)
    show ?thesis
    proof (cases "pendingRegCodeToDevice s c")
      case None
      then have "stale curtime s c" by (simp add: stale_def)
      then show ?thesis
        using "1.IH"(1) [OF Cons None] Cons None by (auto simp: checkExpire_absent)
    next
      case (Some info)
      show ?thesis
      proof (cases "curtime > expires info")
        case True
        then have "stale curtime s c" using Some by (simp add: stale_def)
        then show ?thesis
          using "1.IH"(2) [OF Cons Some True] Cons Some True
          by (simp add: checkExpire_expired stale_remove removePendingDevice_codes)
      next
        case False
        then have "\<not> stale curtime s c" using Some by (simp add: stale_def)
        then show ?thesis using Cons Some False by (simp add: checkExpire_stop)
      qed
    qed
  qed
qed

lemma checkExpire_keeps:
  assumes "pendingRegCodeToDevice s c = Some info" and "t \<le> expires info"
  shows "pendingRegCodeToDevice (checkExpire t s) c = Some info"
proof -
  have "\<not> stale t s c" using assms by (simp add: stale_def)
  then have "c \<notin> set (takeWhile (stale t s) (pendingRegistrationQueue s))"
    using set_takeWhileD by metis
  then show ?thesis using assms(1) by (simp add: checkExpire_codes)
qed

lemma checkExpire_index_keeps:
  assumes "coupled s" and "pendingRegCodeToDevice s c = Some info" and "t \<le> expires info"
  shows "pendingDeviceToRegCode (checkExpire t s) (productDsn (product info) (dsn info)) = Some c"
  using coupled_checkExpire [OF assms(1), of t] checkExpire_keeps [OF assms(2,3)]
  by (simp add: coupled_def)

lemma removePendingDevice_index:
  "pendingRegCodeToDevice s c = Some info \<Longrightarrow>
   pendingDeviceToRegCode (removePendingDevice c s) k =
     (if k = productDsn (product info) (dsn info) then None else pendingDeviceToRegCode s k)"
  by (simp add: removePendingDevice_def)

lemma checkExpire_index_shrinks:
  "pendingDeviceToRegCode s k = None \<Longrightarrow> pendingDeviceToRegCode (checkExpire t s) k = None"
proof (induction t s rule: checkExpire.induct)
  case (1 curtime s)
  show ?case
  proof (cases "pendingRegistrationQueue s")
    case Nil
    then show ?thesis using "1.prems" by (simp add: checkExpire_Nil)
  next
    case (Cons c rest)
    show ?thesis
    proof (cases "pendingRegCodeToDevice s c")
      case None
      then show ?thesis
        using "1.IH"(1) [OF Cons None] "1.prems" Cons by (simp add: checkExpire_absent)
    next
      case (Some info)
      show ?thesis
      proof (cases "curtime > expires info")
        case True
        have "pendingDeviceToRegCode
                ((removePendingDevice c s)\<lparr> pendingRegistrationQueue := rest \<rparr>) k = None"
          using "1.prems" by (simp add: removePendingDevice_index [OF Some])
        then show ?thesis
          using "1.IH"(2) [OF Cons Some True] by (simp add: checkExpire_expired [OF Cons Some True])
      next
        case False
        then show ?thesis using Cons Some "1.prems" by (simp add: checkExpire_stop)
      qed
    qed
  qed
qed

lemma checkExpire_index_swept:
  "c' \<in> set (takeWhile (stale t s) (pendingRegistrationQueue s)) \<Longrightarrow>
   pendingRegCodeToDevice s c' = Some info' \<Longrightarrow>
   pendingDeviceToRegCode (checkExpire t s) (productDsn (product info') (dsn info')) = None"
proof (induction t s rule: checkExpire.induct)
  case (1 curtime s)
  note mem = "1.prems"(1) and at = "1.prems"(2)
  show ?case
  proof (cases "pendingRegistrationQueue s")
    case Nil
    then show ?thesis using mem by simp
  next
    case (Cons c rest)
    show ?thesis
    proof (cases "pendingRegCodeToDevice s c")
      case None
      then have "c' \<noteq> c" using at by auto
      then have "c' \<in> set (takeWhile (stale curtime s) rest)"
        using mem Cons by (simp split: if_splits)
      then show ?thesis
        using "1.IH"(1) [OF Cons None] at by (simp add: checkExpire_absent [OF Cons None])
    next
      case (Some info)
      show ?thesis
      proof (cases "curtime > expires info")
        case True
        let ?s' = "(removePendingDevice c s)\<lparr> pendingRegistrationQueue := rest \<rparr>"
        show ?thesis
        proof (cases "c' = c")
          case True
          then have "info' = info" using at Some by simp
          then have "pendingDeviceToRegCode ?s' (productDsn (product info') (dsn info')) = None"
            by (simp add: removePendingDevice_index [OF Some])
          then show ?thesis
            using checkExpire_index_shrinks
            by (simp add: checkExpire_expired [OF Cons Some \<open>curtime > expires info\<close>])
        next
          case False
          then have "c' \<in> set (takeWhile (stale curtime ?s') (pendingRegistrationQueue ?s'))"
            using mem Cons by (simp add: stale_remove [OF Some True] split: if_splits)
          moreover have "pendingRegCodeToDevice ?s' c' = Some info'"
            using False at by (simp add: removePendingDevice_codes)
          ultimately show ?thesis
            using "1.IH"(2) [OF Cons Some True]
            by (simp add: checkExpire_expired [OF Cons Some True])
        qed
      next
        case False
        then have "\<not> stale curtime s c" using Some by (simp add: stale_def)
        then show ?thesis using mem Cons by simp
      qed
    qed
  qed
qed

lemma checkExpire_other:
  "pendingStateToRegCode (checkExpire t s) = pendingStateToRegCode s \<and>
   deviceInformation (checkExpire t s) = deviceInformation s \<and>
   intervalTimer (checkExpire t s) = intervalTimer s"
proof (induction t s rule: checkExpire.induct)
  case (1 curtime s)
  show ?case
  proof (cases "pendingRegistrationQueue s")
    case Nil
    then show ?thesis by (simp add: checkExpire_Nil)
  next
    case (Cons c rest)
    show ?thesis
    proof (cases "pendingRegCodeToDevice s c")
      case None
      then show ?thesis
        using "1.IH"(1) [OF Cons None] Cons by (simp add: checkExpire_absent)
    next
      case (Some info)
      show ?thesis
      proof (cases "curtime > expires info")
        case True
        then show ?thesis
          using "1.IH"(2) [OF Cons Some True] Cons Some
          by (simp add: checkExpire_expired removePendingDevice_present)
      next
        case False
        then show ?thesis using Cons Some by (simp add: checkExpire_stop)
      qed
    qed
  qed
qed

lemma checkExpire_stops:
  "(case pendingRegistrationQueue (checkExpire t s) of
      [] \<Rightarrow> True
    | c # rest \<Rightarrow> (\<exists>info. pendingRegCodeToDevice (checkExpire t s) c = Some info \<and> t \<le> expires info))"
proof (cases "dropWhile (stale t s) (pendingRegistrationQueue s)")
  case Nil
  show ?thesis unfolding checkExpire_queue Nil by simp
next
  case (Cons c rest)
  then have "\<not> stale t s c" using hd_dropWhile [of "stale t s" "pendingRegistrationQueue s"] by simp
  then obtain info where at: "pendingRegCodeToDevice s c = Some info" and le: "t \<le> expires info"
    by (auto simp: stale_def split: option.splits)
  then show ?thesis
    using checkExpire_keeps [OF at le] unfolding checkExpire_queue Cons by simp
qed

lemma expiresBy_initial: "expiresBy now initial"
  by (simp add: expiresBy_def initial_def)

lemma expiresBy_subset:
  assumes "expiresBy now s"
    and "\<And>c info. pendingRegCodeToDevice s' c = Some info \<Longrightarrow> pendingRegCodeToDevice s c = Some info"
  shows "expiresBy now s'"
  using assms unfolding expiresBy_def by blast

lemma expiresBy_remove: "expiresBy now s \<Longrightarrow> expiresBy now (removePendingDevice c s)"
  by (erule expiresBy_subset) (simp add: removePendingDevice_codes split: if_splits)

lemma expiresBy_checkExpire: "expiresBy now s \<Longrightarrow> expiresBy now (checkExpire t s)"
  by (erule expiresBy_subset) (simp add: checkExpire_codes split: if_splits)

lemma expiresBy_states [simp]: "expiresBy now (s\<lparr> pendingStateToRegCode := m \<rparr>) = expiresBy now s"
  by (simp add: expiresBy_def)

lemma expiresBy_devices [simp]: "expiresBy now (s\<lparr> deviceInformation := m \<rparr>) = expiresBy now s"
  by (simp add: expiresBy_def)

lemma expiresBy_add:
  assumes "expiresBy now s" and "curtime \<le> now"
  shows "expiresBy now (snd (addPendingRegistration curtime c sec p d s))"
proof (cases "pendingDeviceToRegCode s (productDsn p d) = None")
  case False
  then have "addPendingRegistration curtime c sec p d s = (Some PendingRegistration, s)"
    by (simp add: addPendingRegistration_cases)
  then show ?thesis using assms(1) by simp
next
  case True
  let ?s' = "snd (addPendingRegistration curtime c sec p d s)"
  have m: "pendingRegCodeToDevice ?s' = (pendingRegCodeToDevice s)(c \<mapsto>
             \<lparr> product = p, dsn = d, deviceSecret = sec,
               expires = curtime + 1000 * MAX_REG_SECONDS, lastCall = None \<rparr>)"
    using True by (simp add: addPendingRegistration_cases)
  show ?thesis
    unfolding expiresBy_def
  proof (intro allI impI)
    fix c' info'
    assume a: "pendingRegCodeToDevice ?s' c' = Some info'"
    show "expires info' \<le> now + 1000 * MAX_REG_SECONDS"
    proof (cases "c' = c")
      case True
      then have "expires info' = curtime + 1000 * MAX_REG_SECONDS" using a by (auto simp: m)
      then show ?thesis using assms(2) by simp
    next
      case False
      then have "pendingRegCodeToDevice s c' = Some info'" using a by (simp add: m)
      then show ?thesis using assms(1) by (simp add: expiresBy_def)
    qed
  qed
qed

lemma expiresBy_getRegCode:
  assumes "expiresBy now s" and "curtime \<le> now"
  shows "expiresBy now (snd (getRegCode products p d rb sb curtime s))"
proof (cases "isValidDevice products p d \<and> rb \<noteq> None \<and> sb \<noteq> None")
  case False
  then show ?thesis using assms(1) by (auto simp: getRegCode_def split: option.splits)
next
  case True
  then obtain r b where rb: "rb = Some r" and sb: "sb = Some b" by auto
  obtain e s' where add: "addPendingRegistration curtime (toString_hex r) (toString_hex b) p d s = (e, s')"
    by (cases "addPendingRegistration curtime (toString_hex r) (toString_hex b) p d s")
  have "expiresBy now s'"
    using expiresBy_add [OF assms, of "toString_hex r" "toString_hex b" p d] add by simp
  moreover have "snd (getRegCode products p d rb sb curtime s) = s'"
    using True rb sb add by (simp add: getRegCode_def Let_def split: option.splits)
  ultimately show ?thesis by simp
qed

lemma expiresBy_register: "expiresBy now s \<Longrightarrow> expiresBy now (snd (register c buf t s))"
  by (simp add: register_def redirectToDeviceAuthenticate_def Let_def expiresBy_remove
      split: option.splits)

lemma expiresBy_retrieveTokens: "expiresBy now s \<Longrightarrow> expiresBy now (snd (retrieveTokens a st t s))"
  by (simp add: retrieveTokens_def Let_def expiresBy_remove split: option.splits)

lemma expiresBy_retrieveTokens_end:
  "expiresBy now s \<Longrightarrow> expiresBy now (snd (retrieveTokens_end P c res s))"
  by (simp add: retrieveTokens_end_def Let_def expiresBy_remove split: option.splits)

lemma expiresBy_lastCall:
  assumes "expiresBy now s" and "pendingRegCodeToDevice s c = Some info"
  shows "expiresBy now (s\<lparr> pendingRegCodeToDevice :=
           (pendingRegCodeToDevice s)(c \<mapsto> info\<lparr> lastCall := v \<rparr>) \<rparr>)"
  using assms unfolding expiresBy_def by auto

lemma expiresBy_getAccessToken:
  "expiresBy now s \<Longrightarrow> expiresBy now (snd (getAccessToken products p d sec t s))"
  by (simp add: getAccessToken_def Let_def expiresBy_lastCall split: option.splits)

lemma expiresBy_getAccessToken_end:
  "expiresBy now s \<Longrightarrow> expiresBy now (snd (getAccessToken_end P k res s))"
  by (simp add: getAccessToken_end_def Let_def split: option.splits)

lemma reachable_expiresBy: "reachable products P now s \<Longrightarrow> expiresBy now s"
  by (induction rule: reachable.induct)
     (simp_all add: expiresBy_initial expiresBy_getRegCode expiresBy_register
        expiresBy_retrieveTokens expiresBy_retrieveTokens_end expiresBy_getAccessToken
        expiresBy_getAccessToken_end expiresBy_checkExpire)

lemma checkExpire_after_ttl:
  assumes add: "addPendingRegistration createdAt regCode secret p d s0 = (None, s1)"
    and old: "\<forall>c i. pendingRegCodeToDevice s0 c = Some i \<longrightarrow> expires i \<le> createdAt + 900000"
  shows "pendingRegCodeToDevice (checkExpire (createdAt + 901000) s1) regCode = None"
proof -
  have free: "pendingDeviceToRegCode s0 (productDsn p d) = None"
    using add by (auto simp: addPendingRegistration_cases split: if_splits)
  have m: "pendingRegCodeToDevice s1 = (pendingRegCodeToDevice s0)(regCode \<mapsto>
             \<lparr> product = p, dsn = d, deviceSecret = secret,
               expires = createdAt + 1000 * MAX_REG_SECONDS, lastCall = None \<rparr>)"
    and q: "pendingRegistrationQueue s1 = pendingRegistrationQueue s0 @ [regCode]"
    using add free by (auto simp: addPendingRegistration_cases)
  have "stale (createdAt + 901000) s1 c" for c
  proof (cases "c = regCode")
    case True
    then show ?thesis by (simp add: stale_def m MAX_REG_SECONDS_def)
  next
    case False
    show ?thesis
    proof (cases "pendingRegCodeToDevice s0 c")
      case None
      then show ?thesis using False by (simp add: stale_def m)
    next
      case (Some i)
      then have "expires i \<le> createdAt + 900000" using old by blast
      then show ?thesis using False Some by (simp add: stale_def m)
    qed
  qed
  then have "takeWhile (stale (createdAt + 901000) s1) (pendingRegistrationQueue s1)
             = pendingRegistrationQueue s1"
    by simp
  then show ?thesis by (simp add: checkExpire_codes q)
qed

lemma checkExpire_before_ttl:
  assumes add: "addPendingRegistration createdAt regCode secret p d s0 = (None, s1)"
  shows "pendingRegCodeToDevice (checkExpire (createdAt + 899000) s1) regCode =
           Some \<lparr> product = p, dsn = d, deviceSecret = secret,
                  expires = createdAt + 900000, lastCall = None \<rparr>"
proof -
  have free: "pendingDeviceToRegCode s0 (productDsn p d) = None"
    using add by (auto simp: addPendingRegistration_cases split: if_splits)
  have "pendingRegCodeToDevice s1 regCode =
          Some \<lparr> product = p, dsn = d, deviceSecret = secret,
                 expires = createdAt + 900000, lastCall = None \<rparr>"
    using add free by (auto simp: addPendingRegistration_cases MAX_REG_SECONDS_def)
  then show ?thesis by (rule checkExpire_keeps) simp
qed

lemma add1: "addPendingRegistration createdAt1 regCode1 secret1 ''speaker'' ''DSN1'' initial
               = (None, pending1)"
  by (simp add: pending1_eq addPendingRegistration_cases initial_def productDsn_def regInfo1_def
      MAX_REG_SECONDS_def)

subsection \<open>Polling, the state token and the token response\<close>

lemma getAccessToken_pending:
  assumes "isValidDevice products p d"
    and "pendingDeviceToRegCode s (productDsn p d) = Some regCode"
    and "pendingRegCodeToDevice s regCode = Some regInfo"
    and "product regInfo = p" and "dsn regInfo = d"
    and "expires regInfo > curtime"
  shows "getAccessToken products p d secret curtime s =
     (Callback None (Some (PollStatus
        (if js_less (if lastCall regInfo = Some 0 then Number (MIN_POLL_RATE + 1)
                     else js_minus (Number curtime) (ToNumber (lastCall regInfo)))
                    (Number MIN_POLL_RATE)
         then slowdown else waiting))),
      s\<lparr> pendingRegCodeToDevice := (pendingRegCodeToDevice s)
           (regCode \<mapsto> regInfo\<lparr> lastCall := Some curtime \<rparr>) \<rparr>)"
  using assms by (simp add: getAccessToken_def Let_def)

lemma hex3: "toString_hex stateBuffer1 = stateCode1"
  by (simp add: toString_hex_def stateBuffer1_def stateCode1_def hexDigit_def)

lemma registered1_eq:
  "registered1 = pending1\<lparr> pendingStateToRegCode := [stateCode1 \<mapsto> regCode1] \<rparr>"
  by (simp add: registered1_def register_def redirectToDeviceAuthenticate_def pending1_eq
      hex3 regInfo1_def REG_NUM_BYTES_def regCode1_def)

lemma length_stateCode1: "length stateCode1 = STATE_NUM_BYTES * 2"
  by (simp add: stateCode1_def STATE_NUM_BYTES_def)

lemma retrieve1:
  "retrieveTokens ''authcode123'' stateCode1 (createdAt1 + 2000) registered1 =
     (Request (AuthorizationCode ''authcode123'' (Some regCode1)), pending1)"
  by (simp add: retrieveTokens_def Let_def registered1_eq pending1_eq length_stateCode1 truthy_def
      propertyKey_def regInfo1_def regCode1_def)

lemma exchanging1_eq: "exchanging1 = pending1"
  by (simp add: exchanging1_def retrieve1)


lemma pending0_eq:
  "pending0 = \<lparr> pendingStateToRegCode = Map.empty,
       pendingRegCodeToDevice = [regCode1 \<mapsto> regInfo1\<lparr> expires := 900000 \<rparr>],
       pendingDeviceToRegCode = [''speaker:DSN1'' \<mapsto> regCode1],
       deviceInformation = Map.empty,
       pendingRegistrationQueue = [regCode1], intervalTimer = True \<rparr>"
  by (simp add: pending0_def getRegCode_def valid1 hex1 hex2 addPendingRegistration_cases
      initial_def productDsn_def regInfo1_def MAX_REG_SECONDS_def)

lemma polled0_eq:
  "polled0 = pending0\<lparr> pendingRegCodeToDevice :=
       [regCode1 \<mapsto> regInfo1\<lparr> expires := 900000, lastCall := Some 0 \<rparr>] \<rparr>"
  by (simp add: polled0_def getAccessToken_def valid1 pending0_eq productDsn_def regInfo1_def)

lemma promoted1_eq:
  "promoted1 = \<lparr> pendingStateToRegCode = Map.empty,
       pendingRegCodeToDevice = Map.empty,
       pendingDeviceToRegCode = Map.empty,
       deviceInformation = [''speaker:DSN1'' \<mapsto>
          \<lparr> boundSecret = secret1,
            tokens = \<lparr> access = JString ''A'', refresh = JString ''R'',
                       tokenExpires = JNumber 3600 \<rparr> \<rparr>],
       pendingRegistrationQueue = [regCode1], intervalTimer = True \<rparr>"
  by (simp add: promoted1_def retrieveTokens_response_def retrieveTokens_end_def resultBuffer_def
      dataCallbacks_def JSON_parse1_def exchanging1_eq pending1_eq propertyKey_def
      removePendingDevice_def productDsn_def regInfo1_def)

lemma length_toString_hex: "length (toString_hex buf) = 2 * length buf"
  by (induction buf) (simp_all add: toString_hex_def)

lemma register_issues:
  assumes "register regCode (Some buf) curtime s = (Redirect stateCode, s')"
    and "length buf = STATE_NUM_BYTES"
  shows "length stateCode = STATE_NUM_BYTES * 2 \<and>
         pendingStateToRegCode s' stateCode = Some regCode \<and>
         length regCode = REG_NUM_BYTES * 2"
  using assms
  by (auto simp: register_def redirectToDeviceAuthenticate_def Let_def length_toString_hex
      split: if_splits option.splits)

lemma retrieveTokens_unknown:
  assumes "length stateCode = STATE_NUM_BYTES * 2" and "pendingStateToRegCode s stateCode = None"
  shows "retrieveTokens authcode stateCode curtime s = (Callback (Some InvalidState) None, s)"
  using assms by (simp add: retrieveTokens_def truthy_def)

lemma retrieveTokens_InvalidState_iff:
  "fst (retrieveTokens authcode stateCode curtime s) = Callback (Some InvalidState) None \<longleftrightarrow>
     length stateCode = STATE_NUM_BYTES * 2 \<and> \<not> truthy (pendingStateToRegCode s stateCode)"
  by (simp add: retrieveTokens_def Let_def split: option.splits)

lemma removePendingDevice_states [simp]:
  "pendingStateToRegCode (removePendingDevice c s) = pendingStateToRegCode s"
  by (simp add: removePendingDevice_def split: option.splits)

lemma removePendingDevice_devices [simp]:
  "deviceInformation (removePendingDevice c s) = deviceInformation s"
  by (simp add: removePendingDevice_def split: option.splits)

lemma retrieveTokens_consumes:
  assumes "truthy (pendingStateToRegCode s stateCode)"
  shows "pendingStateToRegCode (snd (retrieveTokens authcode stateCode curtime s)) stateCode = None"
  using assms by (simp add: retrieveTokens_def Let_def split: option.splits)

lemma retrieveTokens_end_states:
  "pendingStateToRegCode (snd (retrieveTokens_end P c res s)) = pendingStateToRegCode s"
  by (simp add: retrieveTokens_end_def split: option.splits)

lemma retrieveTokens_request:
  assumes "retrieveTokens authcode stateCode curtime s = (Request g, s1)"
  shows "g = AuthorizationCode authcode (pendingStateToRegCode s stateCode) \<and>
         s1 = s\<lparr> pendingStateToRegCode := (pendingStateToRegCode s)(stateCode := None) \<rparr> \<and>
         (\<exists>info. pendingRegCodeToDevice s (propertyKey (pendingStateToRegCode s stateCode))
                   = Some info \<and> expires info > curtime)"
  using assms by (auto simp: retrieveTokens_def Let_def split: if_splits option.splits)

lemma retrieveTokens_end_success:
  assumes "statusCode res = 200" and "chunks res \<noteq> []"
    and "JSON_parse (concat (chunks res)) = Some result"
    and "pendingRegCodeToDevice s (propertyKey regCode) = Some info"
  shows "retrieveTokens_end JSON_parse regCode res s =
           (Callback None (Some (Message ''device tokens ready'')),
            s\<lparr> deviceInformation := (deviceInformation s)
                 (productDsn (product info) (dsn info) \<mapsto>
                    \<lparr> boundSecret = deviceSecret info,
                      tokens = \<lparr> access = access_token result,
                                 refresh = refresh_token result,
                                 tokenExpires = expires_in result \<rparr> \<rparr>),
               pendingRegCodeToDevice := (pendingRegCodeToDevice s)(propertyKey regCode := None),
               pendingDeviceToRegCode := (pendingDeviceToRegCode s)
                 (productDsn (product info) (dsn info) := None) \<rparr>)"
  using assms by (simp add: retrieveTokens_end_def resultBuffer_def removePendingDevice_def)

lemma retrieveTokens_end_failure:
  assumes "statusCode res \<noteq> 200 \<or> chunks res = []"
  shows "retrieveTokens_end JSON_parse regCode res s =
           (Callback (Some (TokenRetrievalFailure (statusCode res))) None, s)"
  using assms by (auto simp: retrieveTokens_end_def resultBuffer_def)

lemma retrieveTokens_end_unparsable:
  assumes "statusCode res = 200" and "chunks res \<noteq> []"
    and "JSON_parse (concat (chunks res)) = None"
  shows "retrieveTokens_end JSON_parse regCode res s = (Throw SyntaxError, s)"
  using assms by (simp add: retrieveTokens_end_def resultBuffer_def)

lemma retrieveTokens_end_absent:
  assumes "pendingRegCodeToDevice s (propertyKey regCode) = None"
  shows "snd (retrieveTokens_end JSON_parse regCode res s) = s \<and>
         fst (retrieveTokens_end JSON_parse regCode res s)
           \<noteq> Callback None (Some (Message ''device tokens ready''))"
  using assms by (simp add: retrieveTokens_end_def split: option.splits)

lemma retrieveTokens_response_snd:
  "snd (retrieveTokens_response JSON_parse regCode res s)
     = snd (retrieveTokens_end JSON_parse regCode res s)"
  by (simp add: retrieveTokens_response_def split: prod.splits)

lemma retrieveTokens_response_atomic:
  "snd (retrieveTokens_response JSON_parse regCode res s) = s \<or>
   (\<exists>info result.
      pendingRegCodeToDevice s (propertyKey regCode) = Some info \<and>
      statusCode res = 200 \<and> JSON_parse (concat (chunks res)) = Some result \<and>
      retrieveTokens_response JSON_parse regCode res s =
        ([Callback None (Some (Message ''device tokens ready''))],
         s\<lparr> deviceInformation := (deviceInformation s)
              (productDsn (product info) (dsn info) \<mapsto>
                 \<lparr> boundSecret = deviceSecret info,
                   tokens = \<lparr> access = access_token result,
                              refresh = refresh_token result,
                              tokenExpires = expires_in result \<rparr> \<rparr>),
            pendingRegCodeToDevice := (pendingRegCodeToDevice s)(propertyKey regCode := None),
            pendingDeviceToRegCode := (pendingDeviceToRegCode s)
              (productDsn (product info) (dsn info) := None) \<rparr>))"
proof (cases "statusCode res = 200 \<and> chunks res \<noteq> []")
  case False
  then have "statusCode res \<noteq> 200 \<or> chunks res = []" by blast
  then show ?thesis
    by (simp add: retrieveTokens_response_def retrieveTokens_end_failure)
next
  case True
  show ?thesis
  proof (cases "JSON_parse (concat (chunks res))")
    case None
    then show ?thesis
      using True
      by (simp add: retrieveTokens_response_def
          retrieveTokens_end_unparsable [where JSON_parse = JSON_parse])
  next
    case (Some result)
    show ?thesis
    proof (cases "pendingRegCodeToDevice s (propertyKey regCode)")
      case None
      then show ?thesis
        using retrieveTokens_end_absent [OF None, of JSON_parse res]
        by (simp add: retrieveTokens_response_snd)
    next
      case (Some info)
      then show ?thesis
        using True \<open>JSON_parse (concat (chunks res)) = Some result\<close>
        by (simp add: retrieveTokens_response_def dataCallbacks_def
            retrieveTokens_end_success [where JSON_parse = JSON_parse and result = result])
    qed
  qed
qed

lemma getAccessToken_promoted_mismatch:
  assumes "isValidDevice products p d"
    and "pendingDeviceToRegCode s (productDsn p d) = None"
    and "deviceInformation s (productDsn p d) = Some info"
    and "boundSecret info \<noteq> secret"
  shows "getAccessToken products p d secret curtime s = (Callback (Some InvalidDeviceSecret) None, s)"
  using assms by (simp add: getAccessToken_def)

lemma getAccessToken_pending_ignores_secret:
  assumes "pendingDeviceToRegCode s (productDsn p d) \<noteq> None"
  shows "getAccessToken products p d secret curtime s = getAccessToken products p d secret' curtime s"
  using assms by (auto simp: getAccessToken_def)

lemma addPendingRegistration_never_throttles:
  "fst (addPendingRegistration curtime regCode secret p d s) \<noteq> Some Throttle"
  by (simp add: addPendingRegistration_cases)

subsection \<open>The store at capacity\<close>

lemma hexDigit_inj:
  assumes "a < 16" and "b < 16" and "hexDigit a = hexDigit b"
  shows "a = b"
proof -
  have d: "distinct ''0123456789abcdef''" by simp
  have l: "length ''0123456789abcdef'' = 16" by simp
  show ?thesis
    using assms nth_eq_iff_index_eq [OF d, of a b] unfolding hexDigit_def l by simp
qed

lemma byte_digits_inj:
  fixes a b :: "8 word"
  assumes "hexDigit (unat a div 16) = hexDigit (unat b div 16)"
    and "hexDigit (unat a mod 16) = hexDigit (unat b mod 16)"
  shows "a = b"
proof -
  have la: "unat a < 256" and lb: "unat b < 256"
    using unsigned_less [of a, where ?'a = nat] unsigned_less [of b, where ?'a = nat]
    by simp_all
  have "unat a div 16 = unat b div 16"
    using hexDigit_inj [OF _ _ assms(1)] la lb by simp
  moreover have "unat a mod 16 = unat b mod 16"
    using hexDigit_inj [OF _ _ assms(2)] by simp
  ultimately have "unat a = unat b"
    by (metis div_mult_mod_eq)
  then show ?thesis by (simp add: word_unat_eq_iff)
qed

lemma toString_hex_Cons:
  "toString_hex (b # bs) = hexDigit (unat b div 16) # hexDigit (unat b mod 16) # toString_hex bs"
  by (simp add: toString_hex_def)

lemma toString_hex_Nil: "toString_hex [] = []"
  by (simp add: toString_hex_def)

lemma toString_hex_inj: "toString_hex xs = toString_hex ys \<Longrightarrow> xs = ys"
proof (induction xs arbitrary: ys)
  case Nil
  then show ?case by (cases ys) (simp_all add: toString_hex_Nil toString_hex_Cons)
next
  case (Cons x xs)
  then show ?case
  proof (cases ys)
    case Nil
    then show ?thesis using Cons.prems by (simp add: toString_hex_Nil toString_hex_Cons)
  next
    case (Cons y ys')
    then have "x = y" and "toString_hex xs = toString_hex ys'"
      using Cons.prems byte_digits_inj [of x y] by (simp_all add: toString_hex_Cons)
    then show ?thesis using Cons Cons.IH by simp
  qed
qed

lemma bytesOf_inj:
  assumes "n < 65536" and "m < 65536" and "bytesOf n = bytesOf m"
  shows "n = m"
proof -
  have hi: "(of_nat (n div 256) :: 8 word) = of_nat (m div 256)"
    and lo: "(of_nat (n mod 256) :: 8 word) = of_nat (m mod 256)"
    using assms(3) by (simp_all add: bytesOf_def)
  have "n div 256 < 256" "m div 256 < 256" using assms(1,2) by simp_all
  then have "n div 256 = m div 256"
    using hi by (simp add: word_of_nat_eq_iff take_bit_nat_eq_self)
  moreover have "n mod 256 = m mod 256"
    using lo by (simp add: word_of_nat_eq_iff take_bit_nat_eq_self)
  ultimately show ?thesis by (metis div_mult_mod_eq)
qed

lemma codeOf_inj: "inj_on codeOf {..<65536}"
  by (rule inj_onI) (auto simp: codeOf_def dest: toString_hex_inj bytesOf_inj)

lemma distinct_fullCodes: "distinct fullCodes"
  unfolding fullCodes_def
  by (simp add: distinct_map) (rule inj_on_subset [OF codeOf_inj], auto)

lemma length_fullCodes: "length fullCodes = 50000"
  by (simp add: fullCodes_def)

lemma length_codeOf: "length (codeOf n) = 24"
  by (simp add: codeOf_def length_toString_hex bytesOf_def)

lemma fullStore_dom: "dom (pendingRegCodeToDevice fullStore) = set fullCodes"
  by (simp add: fullStore_def dom_map_of_conv_image_fst image_image)

lemma fullStore_card: "card (dom (pendingRegCodeToDevice fullStore)) = 50000"
  by (simp add: fullStore_dom distinct_card [OF distinct_fullCodes] length_fullCodes)

lemma fullStore_free: "pendingDeviceToRegCode fullStore (productDsn ''speaker'' ''DSN1'') = None"
proof -
  have "productDsn ''speaker'' ''DSN1'' \<noteq> productDsn ''speaker'' c" if "c \<in> set fullCodes" for c
  proof -
    from that obtain n where "c = codeOf n" by (auto simp: fullCodes_def)
    then have "length c = 24" by (simp add: length_codeOf)
    then show ?thesis by (auto simp: productDsn_def)
  qed
  then have "productDsn ''speaker'' ''DSN1'' \<notin> (\<lambda>c. productDsn ''speaker'' c) ` set fullCodes"
    by blast
  then show ?thesis
    by (simp add: fullStore_def map_of_eq_None_iff image_image)
qed

lemma regCode1_fresh: "regCode1 \<notin> set fullCodes"
proof
  assume "regCode1 \<in> set fullCodes"
  then obtain n where "regCode1 = codeOf n" by (auto simp: fullCodes_def)
  then have "toString_hex regCodeBuffer1 = toString_hex (bytesOf n)"
    by (simp add: hex1 codeOf_def)
  then have "regCodeBuffer1 = bytesOf n" by (rule toString_hex_inj)
  then have "hd regCodeBuffer1 = hd (bytesOf n)" by simp
  then show False by (simp add: regCodeBuffer1_def bytesOf_def)
qed

subsection \<open>The shape of the identifiers in reachable stores\<close>

lemma shaped_initial: "shaped initial"
  by (simp add: shaped_def initial_def)

lemma shaped_remove: "shaped s \<Longrightarrow> shaped (removePendingDevice c s)"
  unfolding shaped_def
  by (simp add: removePendingDevice_codes split: if_splits)

lemma shaped_checkExpire: "shaped s \<Longrightarrow> shaped (checkExpire t s)"
  unfolding shaped_def
  by (simp add: checkExpire_codes checkExpire_other split: if_splits)

lemma shaped_devices [simp]: "shaped (s\<lparr> deviceInformation := m \<rparr>) = shaped s"
  by (simp add: shaped_def)

lemma shaped_consume:
  "shaped s \<Longrightarrow> shaped (s\<lparr> pendingStateToRegCode := (pendingStateToRegCode s)(st := None) \<rparr>)"
  unfolding shaped_def by simp

lemma shaped_add:
  assumes "shaped s" and "length c = REG_NUM_BYTES * 2"
  shows "shaped (snd (addPendingRegistration curtime c sec p d s))"
proof (cases "pendingDeviceToRegCode s (productDsn p d) = None")
  case False
  then have "addPendingRegistration curtime c sec p d s = (Some PendingRegistration, s)"
    by (simp add: addPendingRegistration_cases)
  then show ?thesis using assms(1) by simp
next
  case True
  then show ?thesis
    using assms unfolding shaped_def by (simp add: addPendingRegistration_cases)
qed

lemma shaped_getRegCode:
  assumes "shaped s" and "randomBytes REG_NUM_BYTES rb"
  shows "shaped (snd (getRegCode products p d rb sb curtime s))"
proof (cases "isValidDevice products p d \<and> rb \<noteq> None \<and> sb \<noteq> None")
  case False
  then show ?thesis using assms(1) by (auto simp: getRegCode_def split: option.splits)
next
  case True
  then obtain r b where rb: "rb = Some r" and sb: "sb = Some b" by auto
  have len: "length (toString_hex r) = REG_NUM_BYTES * 2"
    using assms(2) rb by (simp add: randomBytes_def length_toString_hex)
  obtain e s' where add: "addPendingRegistration curtime (toString_hex r) (toString_hex b) p d s = (e, s')"
    by (cases "addPendingRegistration curtime (toString_hex r) (toString_hex b) p d s")
  have "shaped s'"
    using shaped_add [OF assms(1) len, of curtime "toString_hex b" p d] add by simp
  moreover have "snd (getRegCode products p d rb sb curtime s) = s'"
    using True rb sb add by (simp add: getRegCode_def Let_def split: option.splits)
  ultimately show ?thesis by simp
qed

lemma shaped_register:
  assumes "shaped s" and "randomBytes STATE_NUM_BYTES buf"
  shows "shaped (snd (register c buf t s))"
proof (cases "length c = REG_NUM_BYTES * 2")
  case False
  then show ?thesis using assms(1) by (simp add: register_def)
next
  case True
  show ?thesis
  proof (cases buf)
    case None
    then show ?thesis
      using assms(1)
      by (simp add: register_def redirectToDeviceAuthenticate_def shaped_remove
          split: option.splits)
  next
    case (Some b)
    then have len: "length (toString_hex b) = STATE_NUM_BYTES * 2"
      using assms(2) by (simp add: randomBytes_def length_toString_hex)
    have "shaped (s\<lparr> pendingStateToRegCode := (pendingStateToRegCode s)(toString_hex b \<mapsto> c) \<rparr>)"
      using assms(1) True len unfolding shaped_def by simp
    then show ?thesis
      using assms(1) Some
      by (simp add: register_def redirectToDeviceAuthenticate_def Let_def shaped_remove
          split: option.splits)
  qed
qed

lemma shaped_retrieveTokens: "shaped s \<Longrightarrow> shaped (snd (retrieveTokens a st t s))"
  by (simp add: retrieveTokens_def Let_def shaped_remove shaped_consume split: option.splits)

lemma shaped_retrieveTokens_end: "shaped s \<Longrightarrow> shaped (snd (retrieveTokens_end P c res s))"
  by (simp add: retrieveTokens_end_def Let_def shaped_remove split: option.splits)

lemma shaped_lastCall:
  assumes "shaped s" and "pendingRegCodeToDevice s c = Some info"
  shows "shaped (s\<lparr> pendingRegCodeToDevice :=
           (pendingRegCodeToDevice s)(c \<mapsto> info\<lparr> lastCall := v \<rparr>) \<rparr>)"
  using assms unfolding shaped_def by auto

lemma shaped_getAccessToken: "shaped s \<Longrightarrow> shaped (snd (getAccessToken products p d sec t s))"
  by (simp add: getAccessToken_def Let_def shaped_lastCall split: option.splits)

lemma shaped_getAccessToken_end: "shaped s \<Longrightarrow> shaped (snd (getAccessToken_end P k res s))"
  by (simp add: getAccessToken_end_def Let_def split: option.splits)

lemma reachable_shaped: "reachable products P now s \<Longrightarrow> shaped s"
  by (induction rule: reachable.induct)
     (simp_all add: shaped_initial shaped_getRegCode shaped_register shaped_retrieveTokens
        shaped_retrieveTokens_end shaped_getAccessToken shaped_getAccessToken_end
        shaped_checkExpire)

lemma shaped_no_undefined: "shaped s \<Longrightarrow> pendingRegCodeToDevice s ''undefined'' = None"
  unfolding shaped_def by (cases "pendingRegCodeToDevice s ''undefined''") (auto simp: REG_NUM_BYTES_def)

lemma shaped_wrong_length:
  "shaped s \<Longrightarrow> length stateCode \<noteq> STATE_NUM_BYTES * 2 \<Longrightarrow> pendingStateToRegCode s stateCode = None"
  unfolding shaped_def by (cases "pendingStateToRegCode s stateCode") auto

lemma state_token_consumed:
  assumes "length stateCode = STATE_NUM_BYTES * 2"
    and "pendingStateToRegCode s stateCode = Some regCode"
    and "length regCode = REG_NUM_BYTES * 2"
  shows "pendingStateToRegCode (snd (retrieveTokens authcode stateCode curtime s)) stateCode = None \<and>
         retrieveTokens authcode' stateCode curtime' (snd (retrieveTokens authcode stateCode curtime s))
           = (Callback (Some InvalidState) None, snd (retrieveTokens authcode stateCode curtime s)) \<and>
         retrieveTokens authcode' stateCode curtime'
             (snd (retrieveTokens_end JSON_parse (Some regCode) res
                     (snd (retrieveTokens authcode stateCode curtime s))))
           = (Callback (Some InvalidState) None,
              snd (retrieveTokens_end JSON_parse (Some regCode) res
                     (snd (retrieveTokens authcode stateCode curtime s))))"
proof -
  have "regCode \<noteq> []" using assms(3) by (auto simp: REG_NUM_BYTES_def)
  then have "truthy (pendingStateToRegCode s stateCode)" using assms(2) by (simp add: truthy_def)
  then have gone: "pendingStateToRegCode (snd (retrieveTokens authcode stateCode curtime s)) stateCode
                     = None"
    by (rule retrieveTokens_consumes)
  then have gone': "pendingStateToRegCode
      (snd (retrieveTokens_end JSON_parse (Some regCode) res
              (snd (retrieveTokens authcode stateCode curtime s)))) stateCode = None"
    by (simp add: retrieveTokens_end_states)
  show ?thesis
    using gone retrieveTokens_unknown [OF assms(1) gone] retrieveTokens_unknown [OF assms(1) gone']
    by simp
qed

lemma retrieveTokens_wrong_shape_unknown:
  assumes "length stateCode \<noteq> STATE_NUM_BYTES * 2"
    and "pendingStateToRegCode s stateCode = None"
    and "pendingRegCodeToDevice s ''undefined'' = None"
  shows "retrieveTokens authcode stateCode curtime s =
           (Callback (Some ExpiredRegistrationCode) None, s) \<and>
         retrieveTokens authcode stateCode curtime s \<noteq> (Callback (Some InvalidState) None, s)"
proof -
  have same: "s\<lparr> pendingStateToRegCode := (pendingStateToRegCode s)(stateCode := None) \<rparr> = s"
    using assms(2) by (simp add: fun_upd_idem)
  show ?thesis
    using assms
    by (simp add: retrieveTokens_def Let_def propertyKey_def same removePendingDevice_absent)
qed

lemma pending1_reachable_later: "createdAt1 \<le> now \<Longrightarrow> reachable products1 P now pending1"
  unfolding pending1_def
  by (rule reachable.regcode [OF reachable.start])
     (simp_all add: randomBytes_def regCodeBuffer1_def deviceSecretBuffer1_def REG_NUM_BYTES_def)

lemma registered1_reachable: "reachable products1 P (createdAt1 + 1000) registered1"
  unfolding registered1_def
  by (rule reachable.registration [OF pending1_reachable_later])
     (simp_all add: randomBytes_def stateBuffer1_def STATE_NUM_BYTES_def)

subsection \<open>Promotion in the store the request left\<close>

text \<open>
  When the answer to the token request is handled in the store the request left, the
  registration is still there: a 200 answer whose body parses writes the device record
  and deletes the registration from both pending maps, and every other answer leaves the
  store as it was. In whatever store \<open>later\<close> the answer is handled, it either leaves the
  store as it is or does the whole promotion of the registration found there.
\<close>

lemma promotion_in_place:
  assumes "retrieveTokens authcode stateCode curtime s = (Request (AuthorizationCode authcode regCode), s1)"
    and "pendingRegCodeToDevice s (propertyKey regCode) = Some info"
  shows "expires info > curtime \<and>
         pendingRegCodeToDevice s1 = pendingRegCodeToDevice s \<and>
         pendingDeviceToRegCode s1 = pendingDeviceToRegCode s \<and>
         deviceInformation s1 = deviceInformation s \<and>
         (statusCode res = 200 \<and> chunks res \<noteq> [] \<and>
          JSON_parse (concat (chunks res)) = Some result \<longrightarrow>
            retrieveTokens_response JSON_parse regCode res s1 =
              ([Callback None (Some (Message ''device tokens ready''))],
               s1\<lparr> deviceInformation := (deviceInformation s1)
                     (productDsn (product info) (dsn info) \<mapsto>
                        \<lparr> boundSecret = deviceSecret info,
                          tokens = \<lparr> access = access_token result,
                                     refresh = refresh_token result,
                                     tokenExpires = expires_in result \<rparr> \<rparr>),
                   pendingRegCodeToDevice :=
                     (pendingRegCodeToDevice s1)(propertyKey regCode := None),
                   pendingDeviceToRegCode := (pendingDeviceToRegCode s1)
                     (productDsn (product info) (dsn info) := None) \<rparr>)) \<and>
         (statusCode res \<noteq> 200 \<or> chunks res = [] \<longrightarrow>
            retrieveTokens_response JSON_parse regCode res s1 =
              (dataCallbacks res @ [Callback (Some (TokenRetrievalFailure (statusCode res))) None],
               s1)) \<and>
         (statusCode res = 200 \<and> chunks res \<noteq> [] \<and> JSON_parse (concat (chunks res)) = None \<longrightarrow>
            retrieveTokens_response JSON_parse regCode res s1 = ([Throw SyntaxError], s1)) \<and>
         (snd (retrieveTokens_response JSON_parse regCode res later) = later \<or>
          (\<exists>info' result'.
             pendingRegCodeToDevice later (propertyKey regCode) = Some info' \<and>
             statusCode res = 200 \<and> JSON_parse (concat (chunks res)) = Some result' \<and>
             retrieveTokens_response JSON_parse regCode res later =
               ([Callback None (Some (Message ''device tokens ready''))],
                later\<lparr> deviceInformation := (deviceInformation later)
                        (productDsn (product info') (dsn info') \<mapsto>
                           \<lparr> boundSecret = deviceSecret info',
                             tokens = \<lparr> access = access_token result',
                                        refresh = refresh_token result',
                                        tokenExpires = expires_in result' \<rparr> \<rparr>),
                      pendingRegCodeToDevice :=
                        (pendingRegCodeToDevice later)(propertyKey regCode := None),
                      pendingDeviceToRegCode := (pendingDeviceToRegCode later)
                        (productDsn (product info') (dsn info') := None) \<rparr>)))"
proof -
  from retrieveTokens_request [OF assms(1)]
  have rc: "regCode = pendingStateToRegCode s stateCode"
    and s1: "s1 = s\<lparr> pendingStateToRegCode := (pendingStateToRegCode s)(stateCode := None) \<rparr>"
    and ex: "\<exists>info. pendingRegCodeToDevice s (propertyKey (pendingStateToRegCode s stateCode))
                   = Some info \<and> expires info > curtime"
    by simp_all
  have live: "expires info > curtime" using ex assms(2) rc by auto
  have at: "pendingRegCodeToDevice s1 (propertyKey regCode) = Some info"
    using assms(2) by (simp add: s1)
  have ok: "retrieveTokens_response JSON_parse regCode res s1 =
              ([Callback None (Some (Message ''device tokens ready''))],
               s1\<lparr> deviceInformation := (deviceInformation s1)
                     (productDsn (product info) (dsn info) \<mapsto>
                        \<lparr> boundSecret = deviceSecret info,
                          tokens = \<lparr> access = access_token result,
                                     refresh = refresh_token result,
                                     tokenExpires = expires_in result \<rparr> \<rparr>),
                   pendingRegCodeToDevice :=
                     (pendingRegCodeToDevice s1)(propertyKey regCode := None),
                   pendingDeviceToRegCode := (pendingDeviceToRegCode s1)
                     (productDsn (product info) (dsn info) := None) \<rparr>)"
    if "statusCode res = 200" "chunks res \<noteq> []" "JSON_parse (concat (chunks res)) = Some result"
    using that
    by (simp add: retrieveTokens_response_def retrieveTokens_end_success [where JSON_parse = JSON_parse, OF that at]
        dataCallbacks_def)
  have ko: "retrieveTokens_response JSON_parse regCode res s1 =
              (dataCallbacks res @ [Callback (Some (TokenRetrievalFailure (statusCode res))) None],
               s1)"
    if "statusCode res \<noteq> 200 \<or> chunks res = []"
    by (simp add: retrieveTokens_response_def retrieveTokens_end_failure [OF that])
  have bad: "retrieveTokens_response JSON_parse regCode res s1 = ([Throw SyntaxError], s1)"
    if "statusCode res = 200" "chunks res \<noteq> []" "JSON_parse (concat (chunks res)) = None"
    using that
    by (simp add: retrieveTokens_response_def retrieveTokens_end_unparsable [where JSON_parse = JSON_parse, OF that]
        dataCallbacks_def)
  have frame: "pendingRegCodeToDevice s1 = pendingRegCodeToDevice s"
    "pendingDeviceToRegCode s1 = pendingDeviceToRegCode s"
    "deviceInformation s1 = deviceInformation s"
    by (simp_all add: s1)
  show ?thesis
    using live frame ok ko bad retrieveTokens_response_atomic [of JSON_parse regCode res later]
    by blast
qed

lemma promotion_in_place_sample:
  "retrieveTokens ''authcode123'' stateCode1 (createdAt1 + 2000) registered1 =
     (Request (AuthorizationCode ''authcode123'' (Some regCode1)), exchanging1) \<and>
   pendingRegCodeToDevice registered1 (propertyKey (Some regCode1)) = Some regInfo1 \<and>
   JSON_parse1 (concat [tokenBody1]) =
     Some \<lparr> access_token = JString ''A'', refresh_token = JString ''R'',
            expires_in = JNumber 3600 \<rparr> \<and>
   retrieveTokens_response JSON_parse1 (Some regCode1)
       \<lparr> statusCode = 200, chunks = [tokenBody1] \<rparr> exchanging1 =
     ([Callback None (Some (Message ''device tokens ready''))], promoted1) \<and>
   deviceInformation promoted1 ''speaker:DSN1'' =
     Some \<lparr> boundSecret = secret1,
            tokens = \<lparr> access = JString ''A'', refresh = JString ''R'',
                       tokenExpires = JNumber 3600 \<rparr> \<rparr> \<and>
   pendingRegCodeToDevice promoted1 regCode1 = None \<and>
   pendingDeviceToRegCode promoted1 ''speaker:DSN1'' = None \<and>
   retrieveTokens_response JSON_parse1 (Some regCode1)
       \<lparr> statusCode = 400, chunks = [''invalid_grant''] \<rparr> exchanging1 =
     ([Callback (Some (TokenRetrievalFailure 400)) None,
       Callback (Some (TokenRetrievalFailure 400)) None], exchanging1) \<and>
   JSON_parse1 (concat [''oops'']) = None \<and>
   retrieveTokens_response JSON_parse1 (Some regCode1)
       \<lparr> statusCode = 200, chunks = [''oops''] \<rparr> exchanging1 =
     ([Throw SyntaxError], exchanging1)"
proof -
  have r: "retrieveTokens ''authcode123'' stateCode1 (createdAt1 + 2000) registered1 =
     (Request (AuthorizationCode ''authcode123'' (Some regCode1)), exchanging1)"
    by (simp add: retrieve1 exchanging1_eq)
  have at: "pendingRegCodeToDevice registered1 (propertyKey (Some regCode1)) = Some regInfo1"
    by (simp add: registered1_eq pending1_eq propertyKey_def)
  have p1: "JSON_parse1 (concat [tokenBody1]) =
     Some \<lparr> access_token = JString ''A'', refresh_token = JString ''R'',
            expires_in = JNumber 3600 \<rparr>"
    and p2: "JSON_parse1 (concat [''oops'']) = None"
    by (simp_all add: JSON_parse1_def tokenBody1_def)
  note inst = promotion_in_place [OF r at, of _ JSON_parse1]
  have a: "retrieveTokens_response JSON_parse1 (Some regCode1)
       \<lparr> statusCode = 200, chunks = [tokenBody1] \<rparr> exchanging1 =
     ([Callback None (Some (Message ''device tokens ready''))], promoted1)"
    using inst [of "\<lparr> statusCode = 200, chunks = [tokenBody1] \<rparr>"] p1
    by (simp add: promoted1_def)
  have b: "retrieveTokens_response JSON_parse1 (Some regCode1)
       \<lparr> statusCode = 400, chunks = [''invalid_grant''] \<rparr> exchanging1 =
     ([Callback (Some (TokenRetrievalFailure 400)) None,
       Callback (Some (TokenRetrievalFailure 400)) None], exchanging1)"
    using inst [of "\<lparr> statusCode = 400, chunks = [''invalid_grant''] \<rparr>"]
    by (simp add: dataCallbacks_def)
  have c: "retrieveTokens_response JSON_parse1 (Some regCode1)
       \<lparr> statusCode = 200, chunks = [''oops''] \<rparr> exchanging1 =
     ([Throw SyntaxError], exchanging1)"
    using inst [of "\<lparr> statusCode = 200, chunks = [''oops''] \<rparr>"] p2
    by simp
  show ?thesis
    using r at p1 p2 a b c by (simp add: promoted1_eq)
qed

lemma retrieveTokens_end_swept:
  assumes "statusCode res = 200" and "chunks res \<noteq> []"
    and "JSON_parse (concat (chunks res)) = Some result"
    and "pendingRegCodeToDevice s (propertyKey regCode) = None"
  shows "retrieveTokens_end JSON_parse regCode res s = (Throw TypeError, s)"
  using assms by (simp add: retrieveTokens_end_def resultBuffer_def)

lemma lateExchange1_eq: "lateExchange1 = pending1"
  by (simp add: lateExchange1_def retrieveTokens_def Let_def registered1_eq pending1_eq
      length_stateCode1 truthy_def propertyKey_def regInfo1_def regCode1_def)

lemma swept1_eq:
  "swept1 = pending1\<lparr> pendingRegCodeToDevice := Map.empty, pendingDeviceToRegCode := Map.empty,
              pendingRegistrationQueue := [] \<rparr>"
  by (simp add: swept1_def lateExchange1_eq pending1_eq regInfo1_def checkExpire.simps
      removePendingDevice_def productDsn_def)

subsection \<open>The recorded poll times in reachable stores\<close>

lemma reachable_after_epoch_reachable:
  "reachable_after_epoch products P now s \<Longrightarrow> reachable products P now s"
  by (induction rule: reachable_after_epoch.induct) (auto intro: reachable.intros)





lemma polledAfterEpoch_states [simp]:
  "polledAfterEpoch (s\<lparr> pendingStateToRegCode := m \<rparr>) = polledAfterEpoch s"
  by (simp add: polledAfterEpoch_def)

lemma polledAfterEpoch_devices [simp]:
  "polledAfterEpoch (s\<lparr> deviceInformation := m \<rparr>) = polledAfterEpoch s"
  by (simp add: polledAfterEpoch_def)












lemma later_poll_backoff_off_epoch:
  assumes "isValidDevice products p d"
    and "pendingDeviceToRegCode s (productDsn p d) = Some regCode"
    and "pendingRegCodeToDevice s regCode = Some regInfo"
    and "product regInfo = p" and "dsn regInfo = d"
    and "expires regInfo > curtime"
    and "lastCall regInfo = Some previous" and "previous \<noteq> 0"
  shows "getAccessToken products p d secret curtime s =
     (Callback None (Some (PollStatus
        (if curtime - previous < 1000 then slowdown else waiting))),
      s\<lparr> pendingRegCodeToDevice := (pendingRegCodeToDevice s)
           (regCode \<mapsto> regInfo\<lparr> lastCall := Some curtime \<rparr>) \<rparr>)"
  using assms(7,8) by (simp add: getAccessToken_pending [OF assms(1-6)] MIN_POLL_RATE_def)

text \<open>
  A last poll recorded as 0 is read as no poll at all: were the clock to read 0 at a
  poll, a poll 500 ms later would answer \<open>waiting\<close>.
\<close>

lemma poll_after_poll_at_zero:
  "getAccessToken products1 ''speaker'' ''DSN1'' secret1 0 pending0
     = (Callback None (Some (PollStatus waiting)), polled0) \<and>
   pendingRegCodeToDevice polled0 regCode1
     = Some (regInfo1\<lparr> expires := 900000, lastCall := Some 0 \<rparr>) \<and>
   (500 :: int) - 0 < 1000 \<and>
   fst (getAccessToken products1 ''speaker'' ''DSN1'' secret1 500 polled0)
     = Callback None (Some (PollStatus waiting))"
  by (simp add: polled0_eq getAccessToken_def valid1 pending0_eq productDsn_def regInfo1_def
      MIN_POLL_RATE_def)

section \<open>The claims\<close>

subsection \<open>Creation\<close>

text \<open>
  Claim C2. A create on a store holding at least \<open>MAX_PENDING_REG\<close> registrations is to be
  rejected with \<open>Throttle\<close> and to insert nothing. The capacity test reads the property
  \<open>length\<close> of the code map, a plain object, and compares the result with the cap; the
  comparison is false for every store (\<open>addPendingRegistration_never_throttles\<close>). So
  on a store at or above the cap, a create for a device without a pending registration
  returns no error and inserts into the code map, the device index and the queue. The
  witness runs it on \<open>fullStore\<close>, which then holds 50001 registrations.
\<close>

theorem addPendingRegistration_ignores_capacity:
  assumes "finite (dom (pendingRegCodeToDevice s))"
    and "int (card (dom (pendingRegCodeToDevice s))) \<ge> MAX_PENDING_REG"
    and "pendingDeviceToRegCode s (productDsn p d) = None"
  shows "addPendingRegistration curtime regCode secret p d s =
     (None,
      s\<lparr> pendingRegCodeToDevice := (pendingRegCodeToDevice s)(regCode \<mapsto>
             \<lparr> product = p, dsn = d, deviceSecret = secret,
               expires = curtime + 900000, lastCall = None \<rparr>),
         pendingDeviceToRegCode := (pendingDeviceToRegCode s)(productDsn p d \<mapsto> regCode),
         pendingRegistrationQueue := pendingRegistrationQueue s @ [regCode],
         intervalTimer := True \<rparr>)"
  using assms(3) by (simp add: addPendingRegistration_cases MAX_REG_SECONDS_def)

theorem addPendingRegistration_ignores_capacity_witness:
  "finite (dom (pendingRegCodeToDevice fullStore)) \<and>
   card (dom (pendingRegCodeToDevice fullStore)) = 50000 \<and>
   MAX_PENDING_REG = 50000 \<and>
   pendingDeviceToRegCode fullStore (productDsn ''speaker'' ''DSN1'') = None \<and>
   fst (addPendingRegistration createdAt1 regCode1 secret1 ''speaker'' ''DSN1'' fullStore) = None \<and>
   card (dom (pendingRegCodeToDevice
     (snd (addPendingRegistration createdAt1 regCode1 secret1 ''speaker'' ''DSN1'' fullStore))))
     = 50001 \<and>
   pendingDeviceToRegCode
     (snd (addPendingRegistration createdAt1 regCode1 secret1 ''speaker'' ''DSN1'' fullStore))
     (productDsn ''speaker'' ''DSN1'') = Some regCode1 \<and>
   pendingRegistrationQueue
     (snd (addPendingRegistration createdAt1 regCode1 secret1 ''speaker'' ''DSN1'' fullStore))
     = fullCodes @ [regCode1]"
proof -
  have fin: "finite (dom (pendingRegCodeToDevice fullStore))"
    by (simp add: fullStore_dom)
  have cap: "int (card (dom (pendingRegCodeToDevice fullStore))) \<ge> MAX_PENDING_REG"
    by (simp add: fullStore_card MAX_PENDING_REG_def)
  note run = addPendingRegistration_ignores_capacity [OF fin cap fullStore_free,
      of createdAt1 regCode1 secret1]
  have q: "pendingRegistrationQueue fullStore = fullCodes" by (simp add: fullStore_def)
  have "card (insert regCode1 (set fullCodes)) = 50001"
    using regCode1_fresh distinct_card [OF distinct_fullCodes] length_fullCodes by simp
  then have more: "card (dom (pendingRegCodeToDevice
     (snd (addPendingRegistration createdAt1 regCode1 secret1 ''speaker'' ''DSN1'' fullStore))))
     = 50001"
    by (simp add: run fullStore_dom)
  show ?thesis
    using fin fullStore_card fullStore_free more q
    by (simp add: run MAX_PENDING_REG_def)
qed

text \<open>
  Claim C3. In every reachable store that holds a pending registration for the pair
  \<open>(p, d)\<close>, a further create for that pair fails with the error named
  \<open>PendingRegistration\<close> and returns the store as it was, through
  \<open>addPendingRegistration\<close> and through \<open>getRegCode\<close> alike; and the store holds no
  second registration for the pair.
\<close>

theorem addPendingRegistration_already_pending:
  assumes "reachable products JSON_parse now s"
    and "pendingRegCodeToDevice s c = Some info"
    and "product info = p" and "dsn info = d"
  shows "addPendingRegistration curtime regCode secret p d s = (Some PendingRegistration, s) \<and>
         (isValidDevice products p d \<longrightarrow>
            getRegCode products p d (Some rb) (Some sb) curtime s =
              (Callback (Some PendingRegistration) (Some (RegCodeOnly (toString_hex rb))), s)) \<and>
         (\<forall>c' info'. pendingRegCodeToDevice s c' = Some info' \<and> product info' = p \<and> dsn info' = d
            \<longrightarrow> c' = c)"
proof -
  have cs: "coupled s" using assms(1) by (rule reachable_coupled)
  have "pendingDeviceToRegCode s (productDsn p d) = Some c"
    using cs assms(2-4) by (auto simp: coupled_def)
  then have add: "addPendingRegistration curtime regCode' secret' p d s = (Some PendingRegistration, s)"
    for regCode' secret'
    by (simp add: addPendingRegistration_cases)
  have uniq: "c' = c" if "pendingRegCodeToDevice s c' = Some info'" "product info' = p" "dsn info' = d"
    for c' info'
    using coupled_unique [OF cs that(1) assms(2)] that assms(3,4) by simp
  show ?thesis
    using add uniq by (simp add: getRegCode_def)
qed

theorem addPendingRegistration_already_pending_witness:
  "reachable products1 (\<lambda>x. None) createdAt1 pending1 \<and>
   pendingRegCodeToDevice pending1 regCode1 = Some regInfo1 \<and>
   isValidDevice products1 ''speaker'' ''DSN1'' \<and>
   addPendingRegistration (createdAt1 + 5) ''ffffffffffffffffffffffff'' ''bbbbbbbbbbbbbbbbbbbbbbbb''
      ''speaker'' ''DSN1'' pending1 = (Some PendingRegistration, pending1) \<and>
   getRegCode products1 ''speaker'' ''DSN1'' (Some deviceSecretBuffer1) (Some regCodeBuffer1)
      (createdAt1 + 5) pending1 =
     (Callback (Some PendingRegistration) (Some (RegCodeOnly secret1)), pending1)"
  using addPendingRegistration_already_pending [of products1 "\<lambda>x. None" createdAt1 pending1
      regCode1 regInfo1
      "''speaker''" "''DSN1''" "createdAt1 + 5" "''ffffffffffffffffffffffff''"
      "''bbbbbbbbbbbbbbbbbbbbbbbb''" deviceSecretBuffer1 regCodeBuffer1]
    pending1_reachable [of "\<lambda>x. None"] valid1
  by (simp add: pending1_eq regInfo1_def hex2)

subsection \<open>Removal\<close>

text \<open>
  Claim C9, as amended. \<open>removePendingDevice\<close> deletes the entry of the code from the code
  map and the entry of its device key from the device index, and returns the store as it
  was when the code has no entry. In both cases the expiry queue stays as it is: a code
  removed this way is shifted out of the queue by a later sweep.
\<close>

theorem removePendingDevice_effect:
  "(pendingRegCodeToDevice s regCode = Some info \<longrightarrow>
      removePendingDevice regCode s =
        s\<lparr> pendingRegCodeToDevice := (pendingRegCodeToDevice s)(regCode := None),
           pendingDeviceToRegCode :=
             (pendingDeviceToRegCode s)(productDsn (product info) (dsn info) := None) \<rparr>) \<and>
   (pendingRegCodeToDevice s regCode = None \<longrightarrow> removePendingDevice regCode s = s) \<and>
   pendingRegistrationQueue (removePendingDevice regCode s) = pendingRegistrationQueue s"
  by (simp add: removePendingDevice_def split: option.splits)

theorem removePendingDevice_effect_witness:
  "pendingRegCodeToDevice pending1 regCode1 = Some regInfo1 \<and>
   removePendingDevice regCode1 pending1 =
     pending1\<lparr> pendingRegCodeToDevice := Map.empty, pendingDeviceToRegCode := Map.empty \<rparr> \<and>
   pendingRegistrationQueue (removePendingDevice regCode1 pending1) = [regCode1] \<and>
   pendingRegCodeToDevice initial regCode1 = None \<and>
   removePendingDevice regCode1 initial = initial"
  using removePendingDevice_effect [of pending1 regCode1 regInfo1]
    removePendingDevice_effect [of initial regCode1]
  by (simp add: pending1_eq initial_def regInfo1_def productDsn_def)

text \<open>
  The claim as first stated also has the code leave the queue. In the sample store the
  code is still queued after its removal.
\<close>

theorem removePendingDevice_queue_counterexample:
  "pendingRegCodeToDevice pending1 regCode1 \<noteq> None \<and>
   regCode1 \<in> set (pendingRegistrationQueue pending1) \<and>
   regCode1 \<in> set (pendingRegistrationQueue (removePendingDevice regCode1 pending1))"
  by (simp add: pending1_eq removePendingDevice_def)

subsection \<open>The sweep\<close>

text \<open>
  Claim C7, as amended. A sweep at time \<open>now\<close> shifts away the longest prefix of the queue
  whose codes have no entry or have \<open>expires < now\<close>; the entries of the shifted codes are
  gone from the code map and from the device index. It stops at the first head that has
  an entry with \<open>now \<le> expires\<close>. An entry with \<open>now \<le> expires\<close> is never removed, and in a
  coupled store its index entry stays too. A registration created at \<open>createdAt\<close> is
  still there after a sweep at \<open>createdAt + 899000\<close>, and is gone after a sweep at
  \<open>createdAt + 901000\<close> when the store it was added to was reached by operations run at
  times up to \<open>createdAt\<close>.
\<close>

theorem checkExpire_sweep:
  "pendingRegistrationQueue (checkExpire now s) =
     dropWhile (stale now s) (pendingRegistrationQueue s) \<and>
   (\<forall>c \<in> set (takeWhile (stale now s) (pendingRegistrationQueue s)).
      pendingRegCodeToDevice (checkExpire now s) c = None \<and>
      (\<forall>info. pendingRegCodeToDevice s c = Some info \<longrightarrow>
         pendingDeviceToRegCode (checkExpire now s) (productDsn (product info) (dsn info)) = None)) \<and>
   (case pendingRegistrationQueue (checkExpire now s) of
      [] \<Rightarrow> True
    | c # rest \<Rightarrow>
        (\<exists>info. pendingRegCodeToDevice (checkExpire now s) c = Some info \<and> now \<le> expires info)) \<and>
   (\<forall>c info. pendingRegCodeToDevice s c = Some info \<and> now \<le> expires info \<longrightarrow>
      pendingRegCodeToDevice (checkExpire now s) c = Some info \<and>
      (coupled s \<longrightarrow>
         pendingDeviceToRegCode (checkExpire now s) (productDsn (product info) (dsn info)) = Some c)) \<and>
   (addPendingRegistration createdAt regCode secret p d s0 = (None, s1) \<longrightarrow>
      pendingRegCodeToDevice (checkExpire (createdAt + 899000) s1) regCode =
        Some \<lparr> product = p, dsn = d, deviceSecret = secret,
               expires = createdAt + 900000, lastCall = None \<rparr> \<and>
      (reachable products JSON_parse createdAt s0 \<longrightarrow>
         pendingRegCodeToDevice (checkExpire (createdAt + 901000) s1) regCode = None))"
proof -
  have a: "pendingRegistrationQueue (checkExpire now s) =
             dropWhile (stale now s) (pendingRegistrationQueue s)"
    by (rule checkExpire_queue)
  have b: "\<forall>c \<in> set (takeWhile (stale now s) (pendingRegistrationQueue s)).
      pendingRegCodeToDevice (checkExpire now s) c = None \<and>
      (\<forall>info. pendingRegCodeToDevice s c = Some info \<longrightarrow>
         pendingDeviceToRegCode (checkExpire now s) (productDsn (product info) (dsn info)) = None)"
    by (simp add: checkExpire_codes checkExpire_index_swept)
  have c: "\<forall>c info. pendingRegCodeToDevice s c = Some info \<and> now \<le> expires info \<longrightarrow>
      pendingRegCodeToDevice (checkExpire now s) c = Some info \<and>
      (coupled s \<longrightarrow>
         pendingDeviceToRegCode (checkExpire now s) (productDsn (product info) (dsn info)) = Some c)"
    by (simp add: checkExpire_keeps checkExpire_index_keeps)
  have d: "addPendingRegistration createdAt regCode secret p d s0 = (None, s1) \<longrightarrow>
      pendingRegCodeToDevice (checkExpire (createdAt + 899000) s1) regCode =
        Some \<lparr> product = p, dsn = d, deviceSecret = secret,
               expires = createdAt + 900000, lastCall = None \<rparr> \<and>
      (reachable products JSON_parse createdAt s0 \<longrightarrow>
         pendingRegCodeToDevice (checkExpire (createdAt + 901000) s1) regCode = None)"
  proof (intro impI conjI)
    assume add: "addPendingRegistration createdAt regCode secret p d s0 = (None, s1)"
    show "pendingRegCodeToDevice (checkExpire (createdAt + 899000) s1) regCode =
        Some \<lparr> product = p, dsn = d, deviceSecret = secret,
               expires = createdAt + 900000, lastCall = None \<rparr>"
      using add by (rule checkExpire_before_ttl)
    assume "reachable products JSON_parse createdAt s0"
    then have "expiresBy createdAt s0" by (rule reachable_expiresBy)
    then have "\<forall>c i. pendingRegCodeToDevice s0 c = Some i \<longrightarrow> expires i \<le> createdAt + 900000"
      by (simp add: expiresBy_def MAX_REG_SECONDS_def)
    with add show "pendingRegCodeToDevice (checkExpire (createdAt + 901000) s1) regCode = None"
      by (rule checkExpire_after_ttl)
  qed
  show ?thesis
    using a b c d checkExpire_stops [of now s] by blast
qed

theorem checkExpire_sweep_witness:
  "regCode1 \<in> set (takeWhile (stale (createdAt1 + 901000) pending1)
                      (pendingRegistrationQueue pending1)) \<and>
   pendingRegistrationQueue (checkExpire (createdAt1 + 901000) pending1) = [] \<and>
   pendingRegCodeToDevice (checkExpire (createdAt1 + 901000) pending1) regCode1 = None \<and>
   pendingDeviceToRegCode (checkExpire (createdAt1 + 901000) pending1) ''speaker:DSN1'' = None \<and>
   pendingRegCodeToDevice pending1 regCode1 = Some regInfo1 \<and>
   createdAt1 + 899000 \<le> expires regInfo1 \<and> coupled pending1 \<and>
   pendingRegistrationQueue (checkExpire (createdAt1 + 899000) pending1) = [regCode1] \<and>
   pendingRegCodeToDevice (checkExpire (createdAt1 + 899000) pending1) regCode1 = Some regInfo1 \<and>
   pendingDeviceToRegCode (checkExpire (createdAt1 + 899000) pending1) ''speaker:DSN1''
     = Some regCode1 \<and>
   addPendingRegistration createdAt1 regCode1 secret1 ''speaker'' ''DSN1'' initial
     = (None, pending1) \<and>
   reachable products1 (\<lambda>x. None) createdAt1 initial"
proof -
  have st: "stale (createdAt1 + 901000) pending1 regCode1"
    by (simp add: stale_def pending1_eq regInfo1_def)
  have nst: "\<not> stale (createdAt1 + 899000) pending1 regCode1"
    by (simp add: stale_def pending1_eq regInfo1_def)
  have q: "pendingRegistrationQueue pending1 = [regCode1]"
    and at: "pendingRegCodeToDevice pending1 regCode1 = Some regInfo1"
    by (simp_all add: pending1_eq)
  have le: "createdAt1 + 899000 \<le> expires regInfo1" by (simp add: regInfo1_def)
  have cp: "coupled pending1" using pending1_reachable by (rule reachable_coupled)
  have old: "reachable products1 (\<lambda>x. None) createdAt1 initial"
    by (rule reachable.start)
  have key: "productDsn (product regInfo1) (dsn regInfo1) = ''speaker:DSN1''"
    by (simp add: productDsn_def regInfo1_def)
  note late = checkExpire_sweep [of "createdAt1 + 901000" pending1 createdAt1 regCode1 secret1
        "''speaker''" "''DSN1''" initial pending1 products1 "\<lambda>x. None"]
  note early = checkExpire_sweep [of "createdAt1 + 899000" pending1 createdAt1 regCode1 secret1
        "''speaker''" "''DSN1''" initial pending1 products1 "\<lambda>x. None"]
  have mem: "regCode1 \<in> set (takeWhile (stale (createdAt1 + 901000) pending1)
                      (pendingRegistrationQueue pending1))"
    using st q by simp
  have l1: "pendingRegistrationQueue (checkExpire (createdAt1 + 901000) pending1) = []"
    using late [THEN conjunct1] st q by simp
  have l2: "pendingRegCodeToDevice (checkExpire (createdAt1 + 901000) pending1) regCode1 = None \<and>
            pendingDeviceToRegCode (checkExpire (createdAt1 + 901000) pending1) ''speaker:DSN1''
              = None"
    using late [THEN conjunct2, THEN conjunct1] mem at key by fastforce
  have e1: "pendingRegistrationQueue (checkExpire (createdAt1 + 899000) pending1) = [regCode1]"
    using early [THEN conjunct1] nst q by simp
  have e2: "pendingRegCodeToDevice (checkExpire (createdAt1 + 899000) pending1) regCode1
              = Some regInfo1 \<and>
            pendingDeviceToRegCode (checkExpire (createdAt1 + 899000) pending1) ''speaker:DSN1''
              = Some regCode1"
    using early [THEN conjunct2, THEN conjunct2, THEN conjunct2, THEN conjunct1] at le cp key
    by fastforce
  have l3: "pendingRegCodeToDevice (checkExpire (createdAt1 + 901000) pending1) regCode1 = None"
    using late [THEN conjunct2, THEN conjunct2, THEN conjunct2, THEN conjunct2] add1 old
    by blast
  have e3: "pendingRegCodeToDevice (checkExpire (createdAt1 + 899000) pending1) regCode1
              = Some regInfo1"
    using early [THEN conjunct2, THEN conjunct2, THEN conjunct2, THEN conjunct2] add1
    by (simp add: regInfo1_def)
  show ?thesis
    using mem l1 l2 l3 e1 e2 e3 at le cp add1 old by simp
qed

text \<open>
  The claim as first stated has the sweep remove a head with \<open>expires \<le> now\<close>. At
  \<open>now = expires\<close> the sweep leaves the registration and the queue as they are.
\<close>

theorem checkExpire_boundary_counterexample:
  "pendingRegistrationQueue pending1 = [regCode1] \<and>
   pendingRegCodeToDevice pending1 regCode1 = Some regInfo1 \<and>
   expires regInfo1 \<le> createdAt1 + 900000 \<and>
   pendingRegCodeToDevice (checkExpire (createdAt1 + 900000) pending1) regCode1 = Some regInfo1 \<and>
   pendingRegistrationQueue (checkExpire (createdAt1 + 900000) pending1) = [regCode1]"
  by (simp add: pending1_eq regInfo1_def checkExpire.simps)

subsection \<open>The state token\<close>

text \<open>
  Claim C4. In a reachable store every entry of the state map was written by
  \<open>register\<close>: its token has \<open>2 * STATE_NUM_BYTES\<close> characters. After one run of
  \<open>retrieveTokens\<close> with such a token, whether it sends the token request or reports an
  expired code, the token has no entry in the state map, and a second run with it reports
  \<open>InvalidState\<close> and changes nothing; the same holds after the answer to the token
  request has been handled.
\<close>

theorem state_token_single_use:
  assumes "reachable products JSON_parse now s"
    and "pendingStateToRegCode s stateCode = Some regCode"
  shows "length stateCode = STATE_NUM_BYTES * 2 \<and>
         pendingStateToRegCode (snd (retrieveTokens authcode stateCode curtime s)) stateCode = None \<and>
         retrieveTokens authcode' stateCode curtime' (snd (retrieveTokens authcode stateCode curtime s))
           = (Callback (Some InvalidState) None, snd (retrieveTokens authcode stateCode curtime s)) \<and>
         retrieveTokens authcode' stateCode curtime'
             (snd (retrieveTokens_end JSON_parse (Some regCode) res
                     (snd (retrieveTokens authcode stateCode curtime s))))
           = (Callback (Some InvalidState) None,
              snd (retrieveTokens_end JSON_parse (Some regCode) res
                     (snd (retrieveTokens authcode stateCode curtime s))))"
proof -
  have "shaped s" using assms(1) by (rule reachable_shaped)
  then have len: "length stateCode = STATE_NUM_BYTES * 2" "length regCode = REG_NUM_BYTES * 2"
    using assms(2) by (auto simp: shaped_def)
  show ?thesis
    using len(1) state_token_consumed [OF len(1) assms(2) len(2)] by simp
qed

theorem state_token_single_use_witness:
  "reachable products1 JSON_parse1 (createdAt1 + 1000) registered1 \<and>
   pendingStateToRegCode registered1 stateCode1 = Some regCode1 \<and>
   retrieveTokens ''authcode123'' stateCode1 (createdAt1 + 2000) registered1 =
     (Request (AuthorizationCode ''authcode123'' (Some regCode1)), exchanging1) \<and>
   pendingStateToRegCode exchanging1 stateCode1 = None \<and>
   retrieveTokens ''authcode123'' stateCode1 (createdAt1 + 3000) exchanging1 =
     (Callback (Some InvalidState) None, exchanging1) \<and>
   retrieveTokens ''authcode123'' stateCode1 (createdAt1 + 3000) promoted1 =
     (Callback (Some InvalidState) None, promoted1)"
proof -
  have h: "pendingStateToRegCode registered1 stateCode1 = Some regCode1"
    by (simp add: registered1_eq)
  have p: "promoted1 = snd (retrieveTokens_end JSON_parse1 (Some regCode1)
                             \<lparr> statusCode = 200, chunks = [tokenBody1] \<rparr> exchanging1)"
    by (simp add: promoted1_def retrieveTokens_response_def split: prod.splits)
  show ?thesis
    using state_token_single_use [OF registered1_reachable h,
        where JSON_parse = JSON_parse1 and authcode = "''authcode123''"
          and curtime = "createdAt1 + 2000" and authcode' = "''authcode123''"
          and curtime' = "createdAt1 + 3000"
          and res = "\<lparr> statusCode = 200, chunks = [tokenBody1] \<rparr>"]
      registered1_reachable [of JSON_parse1] h retrieve1
    by (simp add: exchanging1_def p)
qed

text \<open>
  Claim C5. \<open>retrieveTokens\<close> is to report \<open>InvalidState\<close> for every token without an
  entry in the state map, wrong-shaped tokens included. Its test lets every token pass
  whose length differs from \<open>2 * STATE_NUM_BYTES\<close>. In a reachable store such a token
  has no entry; it is taken through the lookup of the registration, under the key
  \<open>undefined\<close>, and reported as \<open>ExpiredRegistrationCode\<close>. The store stays as it is
  and no token request is sent. The witness runs the three-character token \<open>abc\<close> in
  the initial store and in the sample store.
\<close>

theorem retrieveTokens_wrong_shape:
  assumes "reachable products JSON_parse now s"
    and "length stateCode \<noteq> STATE_NUM_BYTES * 2"
  shows "pendingStateToRegCode s stateCode = None \<and>
         retrieveTokens authcode stateCode curtime s =
           (Callback (Some ExpiredRegistrationCode) None, s) \<and>
         retrieveTokens authcode stateCode curtime s \<noteq> (Callback (Some InvalidState) None, s)"
proof -
  have sh: "shaped s" using assms(1) by (rule reachable_shaped)
  have unknown: "pendingStateToRegCode s stateCode = None"
    using sh assms(2) by (rule shaped_wrong_length)
  show ?thesis
    using unknown
      retrieveTokens_wrong_shape_unknown [OF assms(2) unknown shaped_no_undefined [OF sh]]
    by simp
qed

theorem retrieveTokens_wrong_shape_witness:
  "reachable products1 JSON_parse1 createdAt1 initial \<and>
   length ''abc'' \<noteq> STATE_NUM_BYTES * 2 \<and>
   pendingStateToRegCode initial ''abc'' = None \<and>
   retrieveTokens ''authcode123'' ''abc'' createdAt1 initial =
     (Callback (Some ExpiredRegistrationCode) None, initial) \<and>
   reachable products1 JSON_parse1 (createdAt1 + 1000) registered1 \<and>
   pendingStateToRegCode registered1 ''abc'' = None \<and>
   retrieveTokens ''authcode123'' ''abc'' (createdAt1 + 2000) registered1 =
     (Callback (Some ExpiredRegistrationCode) None, registered1)"
proof -
  have l: "length ''abc'' \<noteq> STATE_NUM_BYTES * 2" by (simp add: STATE_NUM_BYTES_def)
  have i: "reachable products1 JSON_parse1 createdAt1 initial" by (rule reachable.start)
  show ?thesis
    using retrieveTokens_wrong_shape [OF i l,
        where authcode = "''authcode123''" and curtime = createdAt1]
      retrieveTokens_wrong_shape [OF registered1_reachable [of JSON_parse1] l,
        where authcode = "''authcode123''" and curtime = "createdAt1 + 2000"]
      l i registered1_reachable [of JSON_parse1]
    by simp
qed

subsection \<open>Promotion\<close>

text \<open>
  Claim C6. A run of \<open>retrieveTokens\<close> that sends the token request for an unexpired
  registration is to end, on a 200 answer, with the device record written and the
  registration removed. The handler of the answer reads the registration again and does
  not test that it is still there. When a sweep has removed the registration between
  the request and the answer, a 200 answer whose body parses throws \<open>TypeError\<close> and
  writes no device record (\<open>promotion_in_place\<close> has the case where the answer is
  handled in the store the request left). The witness sends the request one
  millisecond before the sample registration expires and sweeps two milliseconds later.
\<close>

theorem promotion_lost_after_sweep:
  assumes "retrieveTokens authcode stateCode curtime s
             = (Request (AuthorizationCode authcode regCode), s1)"
    and "pendingRegCodeToDevice s (propertyKey regCode) = Some info"
    and "pendingRegCodeToDevice (checkExpire t s1) (propertyKey regCode) = None"
    and "statusCode res = 200" and "chunks res \<noteq> []"
    and "JSON_parse (concat (chunks res)) = Some result"
  shows "expires info > curtime \<and>
         pendingRegCodeToDevice s1 (propertyKey regCode) = Some info \<and>
         retrieveTokens_response JSON_parse regCode res (checkExpire t s1)
           = ([Throw TypeError], checkExpire t s1) \<and>
         deviceInformation (checkExpire t s1) = deviceInformation s"
proof -
  from retrieveTokens_request [OF assms(1)]
  have rc: "regCode = pendingStateToRegCode s stateCode"
    and s1: "s1 = s\<lparr> pendingStateToRegCode := (pendingStateToRegCode s)(stateCode := None) \<rparr>"
    and ex: "\<exists>info. pendingRegCodeToDevice s (propertyKey (pendingStateToRegCode s stateCode))
                   = Some info \<and> expires info > curtime"
    by simp_all
  have live: "expires info > curtime" using ex assms(2) rc by auto
  have at: "pendingRegCodeToDevice s1 (propertyKey regCode) = Some info"
    using assms(2) by (simp add: s1)
  have thrown: "retrieveTokens_response JSON_parse regCode res (checkExpire t s1)
           = ([Throw TypeError], checkExpire t s1)"
    using assms(4)
    by (simp add: retrieveTokens_response_def dataCallbacks_def
        retrieveTokens_end_swept [where JSON_parse = JSON_parse, OF assms(4-6) assms(3)])
  have "deviceInformation (checkExpire t s1) = deviceInformation s"
    by (simp add: checkExpire_other s1)
  then show ?thesis using live at thrown by simp
qed

theorem promotion_lost_after_sweep_witness:
  "reachable products1 JSON_parse1 (createdAt1 + 1000) registered1 \<and>
   retrieveTokens ''authcode123'' stateCode1 (createdAt1 + 899999) registered1 =
     (Request (AuthorizationCode ''authcode123'' (Some regCode1)), lateExchange1) \<and>
   pendingRegCodeToDevice registered1 (propertyKey (Some regCode1)) = Some regInfo1 \<and>
   expires regInfo1 > createdAt1 + 899999 \<and>
   swept1 = checkExpire (createdAt1 + 900001) lateExchange1 \<and>
   pendingRegCodeToDevice swept1 (propertyKey (Some regCode1)) = None \<and>
   JSON_parse1 (concat [tokenBody1]) =
     Some \<lparr> access_token = JString ''A'', refresh_token = JString ''R'',
            expires_in = JNumber 3600 \<rparr> \<and>
   retrieveTokens_response JSON_parse1 (Some regCode1)
       \<lparr> statusCode = 200, chunks = [tokenBody1] \<rparr> swept1 = ([Throw TypeError], swept1) \<and>
   deviceInformation swept1 ''speaker:DSN1'' = None"
proof -
  have r: "retrieveTokens ''authcode123'' stateCode1 (createdAt1 + 899999) registered1 =
     (Request (AuthorizationCode ''authcode123'' (Some regCode1)), lateExchange1)"
    by (simp add: lateExchange1_eq retrieveTokens_def Let_def registered1_eq pending1_eq
        length_stateCode1 truthy_def propertyKey_def regInfo1_def regCode1_def)
  have at: "pendingRegCodeToDevice registered1 (propertyKey (Some regCode1)) = Some regInfo1"
    by (simp add: registered1_eq pending1_eq propertyKey_def)
  have gone: "pendingRegCodeToDevice (checkExpire (createdAt1 + 900001) lateExchange1)
                (propertyKey (Some regCode1)) = None"
    using swept1_eq by (simp add: swept1_def propertyKey_def)
  have p1: "JSON_parse1 (concat [tokenBody1]) =
     Some \<lparr> access_token = JString ''A'', refresh_token = JString ''R'',
            expires_in = JNumber 3600 \<rparr>"
    by (simp add: JSON_parse1_def)
  have res: "statusCode \<lparr> statusCode = 200, chunks = [tokenBody1] \<rparr> = 200"
    "chunks \<lparr> statusCode = 200, chunks = [tokenBody1] \<rparr> \<noteq> []"
    "JSON_parse1 (concat (chunks \<lparr> statusCode = 200, chunks = [tokenBody1] \<rparr>)) =
     Some \<lparr> access_token = JString ''A'', refresh_token = JString ''R'',
            expires_in = JNumber 3600 \<rparr>"
    using p1 by simp_all
  have none: "deviceInformation swept1 ''speaker:DSN1'' = None"
    by (simp add: swept1_eq pending1_eq)
  show ?thesis
    using promotion_lost_after_sweep [where JSON_parse = JSON_parse1, OF r at gone res]
      r at gone p1 none
      registered1_reachable [of JSON_parse1]
    by (simp add: swept1_def)
qed

subsection \<open>Polling\<close>

text \<open>
  Claim C1. A poll with a secret other than the one bound to the registration is never
  to succeed. While the registration is pending, \<open>getAccessToken\<close> does not look at the
  secret: for a valid device with an unexpired registration, a poll with any other
  secret gives what the poll with the bound secret gives, a poll status. The witness
  polls the sample store with \<open>wrongSecret\<close>. After promotion a secret other than the
  bound one does get \<open>InvalidDeviceSecret\<close> (\<open>getAccessToken_promoted_mismatch\<close>).
\<close>

theorem getAccessToken_pending_any_secret:
  assumes "isValidDevice products p d"
    and "pendingDeviceToRegCode s (productDsn p d) = Some regCode"
    and "pendingRegCodeToDevice s regCode = Some regInfo"
    and "product regInfo = p" and "dsn regInfo = d"
    and "expires regInfo > curtime"
    and "secret \<noteq> deviceSecret regInfo"
  shows "getAccessToken products p d secret curtime s =
           getAccessToken products p d (deviceSecret regInfo) curtime s \<and>
         (\<exists>status. fst (getAccessToken products p d secret curtime s)
            = Callback None (Some (PollStatus status)))"
  by (simp add: getAccessToken_pending [OF assms(1-6)])

theorem getAccessToken_pending_any_secret_witness:
  "isValidDevice products1 ''speaker'' ''DSN1'' \<and>
   pendingDeviceToRegCode pending1 (productDsn ''speaker'' ''DSN1'') = Some regCode1 \<and>
   pendingRegCodeToDevice pending1 regCode1 = Some regInfo1 \<and>
   deviceSecret regInfo1 = secret1 \<and> wrongSecret \<noteq> secret1 \<and>
   expires regInfo1 > createdAt1 + 5000 \<and>
   getAccessToken products1 ''speaker'' ''DSN1'' wrongSecret (createdAt1 + 5000) pending1 =
     getAccessToken products1 ''speaker'' ''DSN1'' secret1 (createdAt1 + 5000) pending1 \<and>
   getAccessToken products1 ''speaker'' ''DSN1'' wrongSecret (createdAt1 + 5000) pending1 =
     (Callback None (Some (PollStatus waiting)),
      pending1\<lparr> pendingRegCodeToDevice :=
        [regCode1 \<mapsto> regInfo1\<lparr> lastCall := Some (createdAt1 + 5000) \<rparr>] \<rparr>)"
proof -
  have h: "pendingDeviceToRegCode pending1 (productDsn ''speaker'' ''DSN1'') = Some regCode1"
    "pendingRegCodeToDevice pending1 regCode1 = Some regInfo1"
    "product regInfo1 = ''speaker''" "dsn regInfo1 = ''DSN1''"
    "expires regInfo1 > createdAt1 + 5000"
    by (simp_all add: pending1_eq productDsn_def regInfo1_def)
  have w: "wrongSecret \<noteq> deviceSecret regInfo1" "deviceSecret regInfo1 = secret1"
    by (simp_all add: regInfo1_def wrongSecret_def secret1_def)
  have run: "getAccessToken products1 ''speaker'' ''DSN1'' secret1 (createdAt1 + 5000) pending1 =
     (Callback None (Some (PollStatus waiting)),
      pending1\<lparr> pendingRegCodeToDevice :=
        [regCode1 \<mapsto> regInfo1\<lparr> lastCall := Some (createdAt1 + 5000) \<rparr>] \<rparr>)"
    unfolding getAccessToken_pending [OF valid1 h]
    by (simp add: pending1_eq regInfo1_def)
  show ?thesis
    using getAccessToken_pending_any_secret [OF valid1 h w(1)] valid1 h w run
    by simp
qed



text \<open>
  Claim C10. For a valid device with an unexpired pending registration that has never
  been polled, a poll answers \<open>waiting\<close> at whatever time it comes, and records that time
  as the time of the last poll.
\<close>

theorem first_poll_waiting:
  assumes "isValidDevice products p d"
    and "pendingDeviceToRegCode s (productDsn p d) = Some regCode"
    and "pendingRegCodeToDevice s regCode = Some regInfo"
    and "product regInfo = p" and "dsn regInfo = d"
    and "expires regInfo > curtime"
    and "lastCall regInfo = None"
  shows "getAccessToken products p d secret curtime s =
     (Callback None (Some (PollStatus waiting)),
      s\<lparr> pendingRegCodeToDevice := (pendingRegCodeToDevice s)
           (regCode \<mapsto> regInfo\<lparr> lastCall := Some curtime \<rparr>) \<rparr>)"
  using assms(7) by (simp add: getAccessToken_pending [OF assms(1-6)])

theorem first_poll_waiting_witness:
  "isValidDevice products1 ''speaker'' ''DSN1'' \<and>
   pendingDeviceToRegCode pending1 (productDsn ''speaker'' ''DSN1'') = Some regCode1 \<and>
   pendingRegCodeToDevice pending1 regCode1 = Some regInfo1 \<and>
   product regInfo1 = ''speaker'' \<and> dsn regInfo1 = ''DSN1'' \<and>
   expires regInfo1 > createdAt1 \<and> lastCall regInfo1 = None \<and>
   getAccessToken products1 ''speaker'' ''DSN1'' secret1 createdAt1 pending1 =
     (Callback None (Some (PollStatus waiting)),
      pending1\<lparr> pendingRegCodeToDevice :=
        [regCode1 \<mapsto> regInfo1\<lparr> lastCall := Some createdAt1 \<rparr>] \<rparr>)"
proof -
  have h: "pendingDeviceToRegCode pending1 (productDsn ''speaker'' ''DSN1'') = Some regCode1"
    "pendingRegCodeToDevice pending1 regCode1 = Some regInfo1"
    "product regInfo1 = ''speaker''" "dsn regInfo1 = ''DSN1''"
    "expires regInfo1 > createdAt1" "lastCall regInfo1 = None"
    by (simp_all add: pending1_eq productDsn_def regInfo1_def)
  show ?thesis
    using first_poll_waiting [OF valid1 h, of secret1] valid1 h
    by (simp add: pending1_eq)
qed

end
